theory Spec2Isabelle
  imports Main
begin

section \<open>Data model of the Lazor solver\<close>

text \<open>
  The class \<^verbatim>\<open>Point\<close> has two integer fields \<^verbatim>\<open>x\<close> and \<^verbatim>\<open>y\<close>; the selectors are
  called \<open>px\<close> and \<open>py\<close> here so that \<open>x\<close> and \<open>y\<close> stay available as variables.
  Python integers are unbounded, hence \<^typ>\<open>int\<close>.
\<close>

datatype Point = Point (px: int) (py: int)

text \<open>\<^verbatim>\<open>Point.__add__\<close>: component-wise addition.\<close>

definition add_Point :: "Point \<Rightarrow> Point \<Rightarrow> Point" where
  "add_Point p q = Point (px p + px q) (py p + py q)"

datatype Laser = Laser (origin: Point) (direction: Point)

text \<open>
  The class \<^verbatim>\<open>Block\<close> and its three subclasses. An object carries \<^verbatim>\<open>pos\<close> and
  \<^verbatim>\<open>fixed\<close>; the class it was built from is the \<open>kind\<close>. \<open>BaseBlock\<close> is an
  instance of the base class itself, whose \<^verbatim>\<open>interact\<close> is not implemented.
\<close>

datatype BlockKind = BaseBlock | ReflectBlock | OpaqueBlock | RefractBlock

datatype Block = Block (kind: BlockKind) (pos: Point) (fixed: bool)

text \<open>
  The exceptions the program can raise. Both \<^verbatim>\<open>ValueError\<close>s of the source are kept
  apart by their origin: \<open>ValueError_entry\<close> is raised by \<^verbatim>\<open>interact\<close> (laser entry
  point not on one side of the block), \<open>ValueError_occupied\<close> by \<^verbatim>\<open>add_block\<close>
  (position already occupied).
\<close>

datatype error =
    ValueError_entry
  | ValueError_occupied
  | NotImplementedError
  | KeyError
  | IndexError
  | UnboundLocalError

section \<open>Block interaction\<close>

text \<open>\<^verbatim>\<open>Block.interact\<close> of the base class raises.\<close>

definition Block_interact :: "Block \<Rightarrow> Laser \<Rightarrow> error + Laser list" where
  "Block_interact self laser = Inl NotImplementedError"

text \<open>\<^verbatim>\<open>ReflectBlock.interact\<close>.\<close>

definition ReflectBlock_interact :: "Block \<Rightarrow> Laser \<Rightarrow> error + Laser list" where
  "ReflectBlock_interact self laser =
     (let prev_pos = origin laser;
          block_pos = pos self;
          dx = px (direction laser);
          dy = py (direction laser)
      in if px prev_pos = px block_pos \<and> py prev_pos \<noteq> py block_pos
           then Inr [Laser block_pos (Point dx (- dy))]
         else if py prev_pos = py block_pos \<and> px prev_pos \<noteq> px block_pos
           then Inr [Laser block_pos (Point (- dx) dy)]
         else Inl ValueError_entry)"

text \<open>\<^verbatim>\<open>OpaqueBlock.interact\<close>.\<close>

definition OpaqueBlock_interact :: "Block \<Rightarrow> Laser \<Rightarrow> error + Laser list" where
  "OpaqueBlock_interact self laser = Inr []"

text \<open>\<^verbatim>\<open>RefractBlock.interact\<close>.\<close>

definition RefractBlock_interact :: "Block \<Rightarrow> Laser \<Rightarrow> error + Laser list" where
  "RefractBlock_interact self laser =
     (let prev_pos = origin laser;
          block_pos = pos self;
          dx = px (direction laser);
          dy = py (direction laser);
          transmitted = Laser block_pos (Point dx dy)
      in if px prev_pos = px block_pos \<and> py prev_pos \<noteq> py block_pos
           then Inr [transmitted, Laser block_pos (Point dx (- dy))]
         else if py prev_pos = py block_pos \<and> px prev_pos \<noteq> px block_pos
           then Inr [transmitted, Laser block_pos (Point (- dx) dy)]
         else Inl ValueError_entry)"

text \<open>Method dispatch on the class of the block.\<close>

definition interact :: "Block \<Rightarrow> Laser \<Rightarrow> error + Laser list" where
  "interact self laser =
     (case kind self of
        BaseBlock \<Rightarrow> Block_interact self laser
      | ReflectBlock \<Rightarrow> ReflectBlock_interact self laser
      | OpaqueBlock \<Rightarrow> OpaqueBlock_interact self laser
      | RefractBlock \<Rightarrow> RefractBlock_interact self laser)"

section \<open>The board\<close>

text \<open>
  \<^verbatim>\<open>grid\<close> is a dictionary from positions to blocks, \<^verbatim>\<open>available_blocks\<close> a dictionary
  from block letters to counts whose insertion order matters to the solver (an association
  list), \<^verbatim>\<open>lasers\<close> and \<^verbatim>\<open>empty_positions\<close> are lists, \<^verbatim>\<open>targets\<close> a set.
\<close>

record Board =
  width :: int
  height :: int
  grid :: "Point \<rightharpoonup> Block"
  lasers :: "Laser list"
  targets :: "Point set"
  available_blocks :: "(string \<times> int) list"
  empty_positions :: "Point list"

text \<open>\<^verbatim>\<open>Board.__init__\<close>.\<close>

definition Board_init :: "int \<Rightarrow> int \<Rightarrow> Board" where
  "Board_init w h =
     \<lparr> width = w, height = h, grid = Map.empty, lasers = [], targets = {},
       available_blocks = [(''A'', 0), (''B'', 0), (''C'', 0)], empty_positions = [] \<rparr>"

text \<open>\<^verbatim>\<open>Board.add_block\<close>: raises when the block's position is a key of the grid.\<close>

definition add_block :: "Board \<Rightarrow> Block \<Rightarrow> error + Board" where
  "add_block self block =
     (if grid self (pos block) \<noteq> None then Inl ValueError_occupied
      else Inr (self\<lparr>grid := (grid self)(pos block \<mapsto> block)\<rparr>))"

text \<open>\<^verbatim>\<open>Board.add_laser\<close>: the direction is normalised component by component.\<close>

definition add_laser :: "Board \<Rightarrow> int \<Rightarrow> int \<Rightarrow> int \<Rightarrow> int \<Rightarrow> Board" where
  "add_laser self x y dx dy =
     (let norm_dx = (if dx > 0 then 1 else if dx < 0 then - 1 else 0);
          norm_dy = (if dy > 0 then 1 else if dy < 0 then - 1 else 0)
      in self\<lparr>lasers := lasers self @ [Laser (Point x y) (Point norm_dx norm_dy)]\<rparr>)"

text \<open>\<^verbatim>\<open>Board.add_target\<close>.\<close>

definition add_target :: "Board \<Rightarrow> int \<Rightarrow> int \<Rightarrow> Board" where
  "add_target self x y = self\<lparr>targets := insert (Point x y) (targets self)\<rparr>"

text \<open>\<^verbatim>\<open>Board.is_valid_position\<close>.\<close>

definition is_valid_position :: "Board \<Rightarrow> Point \<Rightarrow> bool" where
  "is_valid_position self p \<longleftrightarrow> 0 \<le> px p \<and> px p < width self \<and> 0 \<le> py p \<and> py p < height self"

section \<open>Laser simulation\<close>

text \<open>
  The inner \<^verbatim>\<open>while True\<close> loop of \<^verbatim>\<open>simulate_lasers\<close>: one beam walks from
  \<open>current\<close> in direction \<open>dir\<close>. It ends out of bounds (no new lasers) or at a block (the
  lasers \<^verbatim>\<open>interact\<close> returns, or its exception). The loop has no other exit, so the
  walk is a partial function: \<open>None\<close> is a walk that never ends.
\<close>

partial_function (option) walk ::
  "Board \<Rightarrow> Point \<Rightarrow> Point \<Rightarrow> Point set \<Rightarrow> (error + Point set \<times> Laser list) option" where
  "walk self current dir visited =
     (let previous = current;
          current = add_Point current dir
      in if \<not> is_valid_position self current then Some (Inr (visited, []))
         else let visited = insert current visited
              in (case grid self current of
                    Some block \<Rightarrow>
                      (case interact block (Laser previous dir) of
                         Inl e \<Rightarrow> Some (Inl e)
                       | Inr new_lasers \<Rightarrow> Some (Inr (visited, new_lasers)))
                  | None \<Rightarrow> walk self current dir visited))"

text \<open>
  The outer \<^verbatim>\<open>while active_lasers\<close> loop. \<^verbatim>\<open>pop()\<close> takes the last element of the
  work-list, \<^verbatim>\<open>extend\<close> appends at its end. A laser whose (origin, direction) pair was
  expanded before is dropped.
\<close>

partial_function (option) run_lasers ::
  "Board \<Rightarrow> Point set \<Rightarrow> (Point \<times> Point) set \<Rightarrow> Laser list \<Rightarrow> (error + Point set) option" where
  "run_lasers self visited visited_laser_origins active_lasers =
     (if active_lasers = [] then Some (Inr visited)
      else let laser = last active_lasers;
               active_lasers = butlast active_lasers;
               current = origin laser;
               dir = direction laser;
               laser_id = (current, dir)
           in if laser_id \<in> visited_laser_origins
                then run_lasers self visited visited_laser_origins active_lasers
              else (case walk self current dir visited of
                      None \<Rightarrow> None
                    | Some (Inl e) \<Rightarrow> Some (Inl e)
                    | Some (Inr (visited', new_lasers)) \<Rightarrow>
                        run_lasers self visited' (insert laser_id visited_laser_origins)
                          (active_lasers @ new_lasers)))"

declare walk.simps [code] run_lasers.simps [code]

text \<open>\<^verbatim>\<open>Board.simulate_lasers\<close>: the work-list starts as a copy of the board's lasers.\<close>

definition simulate_lasers :: "Board \<Rightarrow> (error + Point set) option" where
  "simulate_lasers self = run_lasers self {} {} (lasers self)"

text \<open>\<^verbatim>\<open>Board.is_solved\<close>.\<close>

definition is_solved :: "Board \<Rightarrow> (error + bool) option" where
  "is_solved self =
     (case simulate_lasers self of
        None \<Rightarrow> None
      | Some (Inl e) \<Rightarrow> Some (Inl e)
      | Some (Inr laser_paths) \<Rightarrow> Some (Inr (targets self \<subseteq> laser_paths)))"

subsection \<open>The simulation on a store of list objects\<close>

text \<open>
  \<^verbatim>\<open>self.lasers\<close> and \<^verbatim>\<open>active_lasers\<close> are list objects, and \<^verbatim>\<open>pop\<close> and \<^verbatim>\<open>extend\<close>
  change a list object in place. A store holds the contents of the list objects by
  address; \<open>next_addr\<close> is the first address not yet in use.
\<close>

record store =
  cells :: "nat \<Rightarrow> Laser list"
  next_addr :: nat

text \<open>
  The outer loop of \<^verbatim>\<open>simulate_lasers\<close> on the store: \<open>active_ref\<close> is the address of
  the list object \<^verbatim>\<open>active_lasers\<close>, which \<^verbatim>\<open>pop()\<close> and \<^verbatim>\<open>extend\<close> update in place.
  The sets \<^verbatim>\<open>visited\<close> and \<^verbatim>\<open>visited_laser_origins\<close> are local objects made by
  \<^verbatim>\<open>set()\<close>; the walk of one beam reads the bounds and the grid of the board only. The
  result comes with the store as the call leaves it, also when \<^verbatim>\<open>interact\<close> raises.
\<close>

partial_function (option) run_lasers_obj ::
  "Board \<Rightarrow> nat \<Rightarrow> store \<Rightarrow> Point set \<Rightarrow> (Point \<times> Point) set
     \<Rightarrow> ((error + Point set) \<times> store) option" where
  "run_lasers_obj self active_ref st visited visited_laser_origins =
     (if cells st active_ref = [] then Some (Inr visited, st)
      else let laser = last (cells st active_ref);
               st = st\<lparr>cells := (cells st)(active_ref := butlast (cells st active_ref))\<rparr>;
               current = origin laser;
               dir = direction laser;
               laser_id = (current, dir)
           in if laser_id \<in> visited_laser_origins
                then run_lasers_obj self active_ref st visited visited_laser_origins
              else (case walk self current dir visited of
                      None \<Rightarrow> None
                    | Some (Inl e) \<Rightarrow> Some (Inl e, st)
                    | Some (Inr (visited', new_lasers)) \<Rightarrow>
                        run_lasers_obj self active_ref
                          (st\<lparr>cells := (cells st)(active_ref := cells st active_ref @ new_lasers)\<rparr>)
                          visited' (insert laser_id visited_laser_origins)))"

declare run_lasers_obj.simps [code]

text \<open>
  \<^verbatim>\<open>Board.simulate_lasers\<close> on the store, for a board whose list of lasers is the list
  object at \<open>lasers_ref\<close>: the list comprehension allocates a new list object for
  \<^verbatim>\<open>active_lasers\<close> and fills it with copies of the lasers read at \<open>lasers_ref\<close>.
\<close>

definition simulate_lasers_obj ::
  "Board \<Rightarrow> nat \<Rightarrow> store \<Rightarrow> ((error + Point set) \<times> store) option" where
  "simulate_lasers_obj self lasers_ref st =
     (let active_ref = next_addr st;
          st = st\<lparr>cells := (cells st)(active_ref := cells st lasers_ref),
                  next_addr := Suc active_ref\<rparr>
      in run_lasers_obj self active_ref st {} {})"

section \<open>The placement search\<close>

text \<open>
  The list \<^verbatim>\<open>blocks_placable\<close>: every letter of \<^verbatim>\<open>available_blocks\<close>, in dictionary
  order, repeated \<^verbatim>\<open>count\<close> times (\<^verbatim>\<open>[block_type] * count\<close> is empty for a count below 1).
\<close>

definition blocks_placable_of :: "(string \<times> int) list \<Rightarrow> string list" where
  "blocks_placable_of avail =
     concat (map (\<lambda>(block_type, count). replicate (nat count) block_type) avail)"

text \<open>
  The \<^verbatim>\<open>if/elif\<close> chain of \<^verbatim>\<open>try_place\<close> that builds the block. A letter other than
  A, B, C leaves the local \<^verbatim>\<open>block\<close> unbound, and its use raises.
\<close>

definition new_block :: "string \<Rightarrow> Point \<Rightarrow> error + Block" where
  "new_block current_type p =
     (if current_type = ''A'' then Inr (Block ReflectBlock p False)
      else if current_type = ''B'' then Inr (Block OpaqueBlock p False)
      else if current_type = ''C'' then Inr (Block RefractBlock p False)
      else Inl UnboundLocalError)"

text \<open>\<^verbatim>\<open>del board.grid[pos]\<close> raises \<^verbatim>\<open>KeyError\<close> on a missing key.\<close>

definition del_grid :: "Board \<Rightarrow> Point \<Rightarrow> error + Board" where
  "del_grid board p =
     (if grid board p = None then Inl KeyError
      else Inr (board\<lparr>grid := (grid board)(p := None)\<rparr>))"

text \<open>\<^verbatim>\<open>solution.pop()\<close> raises \<^verbatim>\<open>IndexError\<close> on an empty list.\<close>

definition pop :: "'a list \<Rightarrow> error + 'a list" where
  "pop xs = (if xs = [] then Inl IndexError else Inr (butlast xs))"

text \<open>
  The nested function \<^verbatim>\<open>try_place\<close>. It mutates \<^verbatim>\<open>board.grid\<close> and the list
  \<^verbatim>\<open>solution\<close> of the enclosing \<^verbatim>\<open>solver\<close>; both are passed in and returned with
  the boolean result. \<open>try_positions\<close> is its \<^verbatim>\<open>for pos in board.empty_positions\<close>
  loop over the positions still to try. The result is \<open>None\<close> when a simulation run by
  \<^verbatim>\<open>is_solved\<close> does not return.
\<close>

function try_place ::
    "string list \<Rightarrow> Board \<Rightarrow> Block list \<Rightarrow> nat \<Rightarrow> (error + bool \<times> Board \<times> Block list) option"
  and try_positions ::
    "string list \<Rightarrow> Point list \<Rightarrow> Board \<Rightarrow> Block list \<Rightarrow> nat
       \<Rightarrow> (error + bool \<times> Board \<times> Block list) option"
where
  "try_place blocks_placable board solution index =
     (if index \<ge> length blocks_placable then
        (case is_solved board of
           None \<Rightarrow> None
         | Some (Inl e) \<Rightarrow> Some (Inl e)
         | Some (Inr solved) \<Rightarrow> Some (Inr (solved, board, solution)))
      else try_positions blocks_placable (empty_positions board) board solution index)"
| "try_positions blocks_placable [] board solution index = Some (Inr (False, board, solution))"
| "try_positions blocks_placable (p # rest) board solution index =
     (if grid board p \<noteq> None then try_positions blocks_placable rest board solution index
      else if \<not> index < length blocks_placable then Some (Inl IndexError)
      else
        (case new_block (blocks_placable ! index) p of
           Inl e \<Rightarrow> Some (Inl e)
         | Inr block \<Rightarrow>
             (case add_block board block of
                Inl e \<Rightarrow> Some (Inl e)
              | Inr board1 \<Rightarrow>
                  (case try_place blocks_placable board1 (solution @ [block]) (index + 1) of
                     None \<Rightarrow> None
                   | Some (Inl e) \<Rightarrow> Some (Inl e)
                   | Some (Inr (found, board2, solution2)) \<Rightarrow>
                       if found then Some (Inr (True, board2, solution2))
                       else
                         (case del_grid board2 p of
                            Inl e \<Rightarrow> Some (Inl e)
                          | Inr board3 \<Rightarrow>
                              (case pop solution2 of
                                 Inl e \<Rightarrow> Some (Inl e)
                               | Inr solution3 \<Rightarrow>
                                   try_positions blocks_placable rest board3 solution3
                                     index))))))"
  by pat_completeness auto
termination
  by (relation "measures
        [\<lambda>a. case a of Inl (bp, b, s, i) \<Rightarrow> length bp - i | Inr (bp, ps, b, s, i) \<Rightarrow> length bp - i,
         \<lambda>a. case a of Inl (bp, b, s, i) \<Rightarrow> Suc (length (empty_positions b))
                      | Inr (bp, ps, b, s, i) \<Rightarrow> length ps]")
     auto

text \<open>
  \<^verbatim>\<open>solver\<close>: the placed blocks when the search succeeds, \<^verbatim>\<open>None\<close> otherwise; the
  board is returned as the search left it.
\<close>

definition solver :: "Board \<Rightarrow> (error + Block list option \<times> Board) option" where
  "solver board =
     (let blocks_placable = blocks_placable_of (available_blocks board)
      in case try_place blocks_placable board [] 0 of
           None \<Rightarrow> None
         | Some (Inl e) \<Rightarrow> Some (Inl e)
         | Some (Inr (found, board', solution)) \<Rightarrow>
             Some (Inr (if found then Some solution else None, board')))"

text \<open>
  The test \<^verbatim>\<open>if solution:\<close> of the main program: \<^verbatim>\<open>None\<close> and the empty list are
  both false.
\<close>

definition truthy :: "'a list option \<Rightarrow> bool" where
  "truthy solution = (case solution of None \<Rightarrow> False | Some xs \<Rightarrow> xs \<noteq> [])"

text \<open>
  What the main program reports after \<^verbatim>\<open>solution = solver(board)\<close>: under
  \<^verbatim>\<open>if solution:\<close> it saves the solution, otherwise it prints \<^verbatim>\<open>No solution.\<close>
\<close>

datatype report = Solution_saved | No_solution

definition main_report :: "Block list option \<Rightarrow> report" where
  "main_report solution = (if truthy solution then Solution_saved else No_solution)"

section \<open>Notions used to state the properties\<close>

text \<open>
  The points a beam touches when it walks from \<open>cur\<close> in direction \<open>d\<close>: each in-bounds
  point it steps on, up to and including the first one that holds a block.
\<close>

inductive touches :: "Board \<Rightarrow> Point \<Rightarrow> Point \<Rightarrow> Point \<Rightarrow> bool" for b :: Board where
  touch_next:
    "is_valid_position b (add_Point cur d) \<Longrightarrow> touches b cur d (add_Point cur d)"
| touch_later:
    "is_valid_position b (add_Point cur d) \<Longrightarrow> grid b (add_Point cur d) = None \<Longrightarrow>
     touches b (add_Point cur d) d p \<Longrightarrow> touches b cur d p"

text \<open>
  The beam walking from \<open>cur\<close> in direction \<open>d\<close> enters block \<open>blk\<close>, and \<open>prev\<close> is
  the last point it was on before the block.
\<close>

inductive enters :: "Board \<Rightarrow> Point \<Rightarrow> Point \<Rightarrow> Point \<Rightarrow> Block \<Rightarrow> bool" for b :: Board where
  enter_next:
    "is_valid_position b (add_Point cur d) \<Longrightarrow> grid b (add_Point cur d) = Some blk \<Longrightarrow>
     enters b cur d cur blk"
| enter_later:
    "is_valid_position b (add_Point cur d) \<Longrightarrow> grid b (add_Point cur d) = None \<Longrightarrow>
     enters b (add_Point cur d) d prev blk \<Longrightarrow> enters b cur d prev blk"

text \<open>
  The beams of a board: its laser sources, and every laser a block returns when a beam
  enters it.
\<close>

inductive beam :: "Board \<Rightarrow> Laser \<Rightarrow> bool" for b :: Board where
  beam_source: "l \<in> set (lasers b) \<Longrightarrow> beam b l"
| beam_emitted:
    "beam b l \<Longrightarrow> enters b (origin l) (direction l) prev blk \<Longrightarrow>
     interact blk (Laser prev (direction l)) = Inr new_lasers \<Longrightarrow> l' \<in> set new_lasers \<Longrightarrow>
     beam b l'"

text \<open>
  The invariant of the work-list loop: every source is expanded or waiting, and every
  expanded (origin, direction) pair has its points recorded and its emitted lasers expanded
  or waiting.
\<close>

definition sim_inv :: "Board \<Rightarrow> Point set \<Rightarrow> (Point \<times> Point) set \<Rightarrow> Laser list \<Rightarrow> bool" where
  "sim_inv b V Sn A \<longleftrightarrow>
     (\<forall>l \<in> set (lasers b). (origin l, direction l) \<in> Sn \<or> l \<in> set A) \<and>
     (\<forall>c d p. (c, d) \<in> Sn \<longrightarrow> touches b c d p \<longrightarrow> p \<in> V) \<and>
     (\<forall>c d prev blk ls l'. (c, d) \<in> Sn \<longrightarrow> enters b c d prev blk \<longrightarrow>
        interact blk (Laser prev d) = Inr ls \<longrightarrow> l' \<in> set ls \<longrightarrow>
        (origin l', direction l') \<in> Sn \<or> l' \<in> set A)"

text \<open>
  For termination: the directions a block can turn \<open>d\<close> into, the finite set of
  (origin, direction) pairs a beam of the board can have, and the number of steps a walk
  in a direction other than \<open>(0, 0)\<close> can still take inside the bounds.
\<close>

definition flips :: "Point \<Rightarrow> Point set" where
  "flips d = {d, Point (px d) (- py d), Point (- px d) (py d), Point (- px d) (- py d)}"

definition beam_ids :: "Board \<Rightarrow> (Point \<times> Point) set" where
  "beam_ids b =
     (origin ` set (lasers b) \<union> {pos blk | k blk. is_valid_position b k \<and> grid b k = Some blk})
     \<times> (\<Union>l \<in> set (lasers b). flips (direction l))"

definition steps_left :: "Board \<Rightarrow> Point \<Rightarrow> Point \<Rightarrow> nat" where
  "steps_left b d cur =
     (if px d > 0 then nat (width b - px cur)
      else if px d < 0 then nat (px cur + 1)
      else if py d > 0 then nat (height b - py cur)
      else nat (py cur + 1))"

text \<open>
  What a call of \<^verbatim>\<open>try_place\<close> that returns leaves behind: on \<^verbatim>\<open>False\<close> the board and
  the solution list as they were; on \<^verbatim>\<open>True\<close> \<open>n\<close> more blocks, on distinct free
  positions, appended to the solution and stored in the grid, and a solved board.
\<close>

definition placed_ok ::
  "nat \<Rightarrow> Board \<Rightarrow> Block list \<Rightarrow> bool \<Rightarrow> Board \<Rightarrow> Block list \<Rightarrow> bool" where
  "placed_ok n b sol found b' sol' \<longleftrightarrow>
     (if found then
        (\<exists>placed. sol' = sol @ placed \<and> length placed = n
           \<and> distinct (map pos placed)
           \<and> (\<forall>blk \<in> set placed. grid b (pos blk) = None)
           \<and> b' = b\<lparr>grid := foldl (\<lambda>g blk. g(pos blk \<mapsto> blk)) (grid b) placed\<rparr>
           \<and> is_solved b' = Some (Inr True))
      else b' = b \<and> sol' = sol)"

text \<open>
  A complete placement: the block letters \<open>ts\<close> are placed one after the other, each on
  a cell of \<^verbatim>\<open>empty_positions\<close> that is free when its turn comes, and the board ends
  as \<open>b'\<close>.
\<close>

inductive placement :: "string list \<Rightarrow> Board \<Rightarrow> Board \<Rightarrow> bool" where
  placement_done: "placement [] b b"
| placement_step:
    "p \<in> set (empty_positions b) \<Longrightarrow> grid b p = None \<Longrightarrow> new_block t p = Inr blk \<Longrightarrow>
     placement ts (b\<lparr>grid := (grid b)(p \<mapsto> blk)\<rparr>) b' \<Longrightarrow> placement (t # ts) b b'"

section \<open>Example boards\<close>

text \<open>A 4 by 4 board without blocks: one laser along the top row, one target on it.\<close>

definition ex_line :: Board where
  "ex_line = add_target (add_laser (Board_init 4 4) 0 0 1 0) 2 0"

text \<open>The same board with the target off the beam.\<close>

definition ex_dark :: Board where
  "ex_dark = add_target (add_laser (Board_init 4 4) 0 0 1 0) 0 3"

text \<open>A 6 by 6 board with a fixed reflect block below the laser source.\<close>

definition ex_mirror :: Board where
  "ex_mirror =
     (add_laser (Board_init 6 6) 2 0 0 1)
       \<lparr>grid := [Point 2 2 \<mapsto> Block ReflectBlock (Point 2 2) True]\<rparr>"

text \<open>
  A puzzle with one reflect block to place on one of two cells. On the first cell the
  block turns the beam back before the target, on the second it is out of the way.
\<close>

definition ex_puzzle :: Board where
  "ex_puzzle =
     (add_target (add_laser (Board_init 6 6) 2 0 0 1) 2 3)
       \<lparr>available_blocks := [(''A'', 1), (''B'', 0), (''C'', 0)],
        empty_positions := [Point 2 2, Point 4 4]\<rparr>"

text \<open>The same puzzle with a target no beam reaches.\<close>

definition ex_unsolvable :: Board where
  "ex_unsolvable =
     (add_target (add_laser (Board_init 6 6) 2 0 0 1) 0 0)
       \<lparr>available_blocks := [(''A'', 1), (''B'', 0), (''C'', 0)],
        empty_positions := [Point 2 2, Point 4 4]\<rparr>"

text \<open>
  A 6 by 6 board with a fixed reflect block and a diagonal laser that runs into it; no
  blocks to place.
\<close>

definition ex_diagonal :: Board where
  "ex_diagonal =
     (add_laser (Board_init 6 6) 1 1 1 1)
       \<lparr>grid := [Point 2 2 \<mapsto> Block ReflectBlock (Point 2 2) True]\<rparr>"

text \<open>A store whose only list object, at address 0, is the list of lasers of the board.\<close>

definition store_of :: "Board \<Rightarrow> store" where
  "store_of b = \<lparr>cells = (\<lambda>_. [])(0 := lasers b), next_addr = 1\<rparr>"

text \<open>A 1 by 1 board whose only laser was added with direction \<open>(0, 0)\<close>.\<close>

definition stuck_board :: Board where
  "stuck_board = add_laser (Board_init 1 1) 0 0 0 0"

section \<open>Block interaction: reflect and refract\<close>

text \<open>
  C1. A reflect block answers every laser whose origin shares the block's x-coordinate and
  differs in y with exactly one laser at the block's position, the y-component of the
  direction negated and the x-component kept; a laser whose origin shares the y-coordinate
  and differs in x with one laser at the block's position, the x-component negated and the
  y-component kept; and in the remaining case (the origin differs from the block's position
  on both axes, or is the block's position) it raises the entry error.
\<close>

theorem ReflectBlock_interact_sides:
  assumes "kind blk = ReflectBlock"
  shows "(px (origin laser) = px (pos blk) \<and> py (origin laser) \<noteq> py (pos blk) \<longrightarrow>
            interact blk laser =
              Inr [Laser (pos blk) (Point (px (direction laser)) (- py (direction laser)))])
       \<and> (py (origin laser) = py (pos blk) \<and> px (origin laser) \<noteq> px (pos blk) \<longrightarrow>
            interact blk laser =
              Inr [Laser (pos blk) (Point (- px (direction laser)) (py (direction laser)))])
       \<and> ((px (origin laser) \<noteq> px (pos blk) \<and> py (origin laser) \<noteq> py (pos blk))
            \<or> origin laser = pos blk \<longrightarrow>
            interact blk laser = Inl ValueError_entry)"
  using assms by (auto simp: interact_def ReflectBlock_interact_def Let_def)

theorem ReflectBlock_interact_sides_witness:
  "kind (Block ReflectBlock (Point 2 2) False) = ReflectBlock
   \<and> interact (Block ReflectBlock (Point 2 2) False) (Laser (Point 2 0) (Point 1 (- 1)))
       = Inr [Laser (Point 2 2) (Point 1 1)]
   \<and> interact (Block ReflectBlock (Point 2 2) False) (Laser (Point 0 2) (Point 1 (- 1)))
       = Inr [Laser (Point 2 2) (Point (- 1) (- 1))]
   \<and> interact (Block ReflectBlock (Point 2 2) False) (Laser (Point 1 3) (Point 1 (- 1)))
       = Inl ValueError_entry
   \<and> interact (Block ReflectBlock (Point 2 2) False) (Laser (Point 2 2) (Point 1 (- 1)))
       = Inl ValueError_entry"
  using ReflectBlock_interact_sides
          [of "Block ReflectBlock (Point 2 2) False" "Laser (Point 2 0) (Point 1 (- 1))"]
        ReflectBlock_interact_sides
          [of "Block ReflectBlock (Point 2 2) False" "Laser (Point 0 2) (Point 1 (- 1))"]
        ReflectBlock_interact_sides
          [of "Block ReflectBlock (Point 2 2) False" "Laser (Point 1 3) (Point 1 (- 1))"]
        ReflectBlock_interact_sides
          [of "Block ReflectBlock (Point 2 2) False" "Laser (Point 2 2) (Point 1 (- 1))"]
  by simp

text \<open>
  C5. A refract block answers a laser whose origin lies on exactly one axis of the block
  (same x and different y, or same y and different x) with exactly two lasers at the
  block's position: first the transmitted one, direction unchanged, then the reflected one,
  with y negated in the first case and x negated in the second. If the origin matches the
  block on neither axis or on both, it raises the entry error.
\<close>

theorem RefractBlock_interact_sides:
  assumes "kind blk = RefractBlock"
  shows "(px (origin laser) = px (pos blk) \<and> py (origin laser) \<noteq> py (pos blk) \<longrightarrow>
            interact blk laser =
              Inr [Laser (pos blk) (direction laser),
                   Laser (pos blk) (Point (px (direction laser)) (- py (direction laser)))])
       \<and> (py (origin laser) = py (pos blk) \<and> px (origin laser) \<noteq> px (pos blk) \<longrightarrow>
            interact blk laser =
              Inr [Laser (pos blk) (direction laser),
                   Laser (pos blk) (Point (- px (direction laser)) (py (direction laser)))])
       \<and> ((px (origin laser) \<noteq> px (pos blk) \<and> py (origin laser) \<noteq> py (pos blk))
            \<or> (px (origin laser) = px (pos blk) \<and> py (origin laser) = py (pos blk)) \<longrightarrow>
            interact blk laser = Inl ValueError_entry)"
  using assms by (auto simp: interact_def RefractBlock_interact_def Let_def)

theorem RefractBlock_interact_sides_witness:
  "kind (Block RefractBlock (Point 2 2) False) = RefractBlock
   \<and> interact (Block RefractBlock (Point 2 2) False) (Laser (Point 2 0) (Point 1 (- 1)))
       = Inr [Laser (Point 2 2) (Point 1 (- 1)), Laser (Point 2 2) (Point 1 1)]
   \<and> interact (Block RefractBlock (Point 2 2) False) (Laser (Point 0 2) (Point 1 (- 1)))
       = Inr [Laser (Point 2 2) (Point 1 (- 1)), Laser (Point 2 2) (Point (- 1) (- 1))]
   \<and> interact (Block RefractBlock (Point 2 2) False) (Laser (Point 1 3) (Point 1 (- 1)))
       = Inl ValueError_entry
   \<and> interact (Block RefractBlock (Point 2 2) False) (Laser (Point 2 2) (Point 1 (- 1)))
       = Inl ValueError_entry"
  using RefractBlock_interact_sides
          [of "Block RefractBlock (Point 2 2) False" "Laser (Point 2 0) (Point 1 (- 1))"]
        RefractBlock_interact_sides
          [of "Block RefractBlock (Point 2 2) False" "Laser (Point 0 2) (Point 1 (- 1))"]
        RefractBlock_interact_sides
          [of "Block RefractBlock (Point 2 2) False" "Laser (Point 1 3) (Point 1 (- 1))"]
        RefractBlock_interact_sides
          [of "Block RefractBlock (Point 2 2) False" "Laser (Point 2 2) (Point 1 (- 1))"]
  by simp

section \<open>Adding a laser\<close>

text \<open>
  C9. For all integers \<open>dx\<close> and \<open>dy\<close>, \<^verbatim>\<open>add_laser\<close> appends one laser to the board's
  lasers, at the given position, whose direction is the component-wise sign of
  \<open>(dx, dy)\<close>: \<open>sgn\<close> is 1 on a positive, -1 on a negative and 0 on a zero integer, so a
  zero component is kept. Nothing else on the board changes.
\<close>

theorem add_laser_sign:
  "add_laser b x y dx dy =
     b\<lparr>lasers := lasers b @ [Laser (Point x y) (Point (sgn dx) (sgn dy))]\<rparr>"
  by (simp add: add_laser_def sgn_if)

section \<open>What the simulation records\<close>

lemma walk_covers:
  "walk b cur d V = Some r \<Longrightarrow>
     \<forall>V' ls. r = Inr (V', ls) \<longrightarrow>
       V \<subseteq> V' \<and> (\<forall>p. touches b cur d p \<longrightarrow> p \<in> V')
       \<and> (\<forall>prev blk. enters b cur d prev blk \<longrightarrow> interact blk (Laser prev d) = Inr ls)"
proof (induct rule: walk.raw_induct[rotated 1, consumes 1, case_names step])
  case (step walk' self current dir visited r)
  let ?n = "add_Point current dir"
  show ?case
  proof (cases "is_valid_position self ?n")
    case False
    then have "\<And>p. \<not> touches self current dir p" "\<And>prev blk. \<not> enters self current dir prev blk"
      by (auto elim: touches.cases enters.cases)
    with step(2) False show ?thesis by (auto simp: Let_def)
  next
    case valid: True
    show ?thesis
    proof (cases "grid self ?n")
      case None
      with step(2) valid have rec: "walk' self ?n dir (insert ?n visited) = Some r"
        by (simp add: Let_def)
      note ih = step(1)[OF rec]
      show ?thesis
      proof (intro allI impI)
        fix V' ls assume r: "r = Inr (V', ls)"
        with ih have sub: "insert ?n visited \<subseteq> V'"
          and t: "\<And>p. touches self ?n dir p \<Longrightarrow> p \<in> V'"
          and e: "\<And>prev blk. enters self ?n dir prev blk \<Longrightarrow> interact blk (Laser prev dir) = Inr ls"
          by blast+
        have "\<And>p. touches self current dir p \<Longrightarrow> p \<in> V'"
          using sub t by (auto elim: touches.cases)
        moreover have "\<And>prev blk. enters self current dir prev blk \<Longrightarrow> interact blk (Laser prev dir) = Inr ls"
          using e None by (auto elim: enters.cases)
        ultimately show "visited \<subseteq> V' \<and> (\<forall>p. touches self current dir p \<longrightarrow> p \<in> V') \<and>
           (\<forall>prev blk. enters self current dir prev blk \<longrightarrow> interact blk (Laser prev dir) = Inr ls)"
          using sub by blast
      qed
    next
      case (Some block)
      have t: "\<And>p. touches self current dir p \<Longrightarrow> p = ?n"
        using Some by (auto elim: touches.cases)
      have e: "\<And>prev blk. enters self current dir prev blk \<Longrightarrow> prev = current \<and> blk = block"
        using Some by (auto elim: enters.cases)
      from step(2) valid Some show ?thesis
        by (auto simp: Let_def split: sum.splits dest: t e)
    qed
  qed
qed


lemma set_last_butlast: "A \<noteq> [] \<Longrightarrow> set A = insert (last A) (set (butlast A))"
proof -
  assume "A \<noteq> []"
  then have "A = butlast A @ [last A]" by simp
  then have "set A = set (butlast A @ [last A])" by simp
  then show ?thesis by simp
qed

lemma sim_inv_done:
  assumes "sim_inv b V Sn []" and "beam b l"
  shows "(origin l, direction l) \<in> Sn"
  using assms(2)
proof (induction rule: beam.induct)
  case (beam_source l)
  with assms(1) show ?case by (auto simp: sim_inv_def)
next
  case (beam_emitted l prev blk new_lasers l')
  with assms(1) show ?case by (fastforce simp: sim_inv_def)
qed

lemma sim_inv_skip:
  assumes inv: "sim_inv b V Sn A" and ne: "A \<noteq> []"
    and seen: "(origin (last A), direction (last A)) \<in> Sn"
  shows "sim_inv b V Sn (butlast A)"
proof -
  have *: "\<And>l. l \<in> set A \<Longrightarrow> (origin l, direction l) \<in> Sn \<or> l \<in> set (butlast A)"
    using ne seen set_last_butlast[of A] by auto
  have a: "\<forall>l \<in> set (lasers b). (origin l, direction l) \<in> Sn \<or> l \<in> set (butlast A)"
    using inv * unfolding sim_inv_def by blast
  have t: "\<forall>c d p. (c, d) \<in> Sn \<longrightarrow> touches b c d p \<longrightarrow> p \<in> V"
    using inv unfolding sim_inv_def by blast
  have e: "\<forall>c d prev blk ls l'. (c, d) \<in> Sn \<longrightarrow> enters b c d prev blk \<longrightarrow>
        interact blk (Laser prev d) = Inr ls \<longrightarrow> l' \<in> set ls \<longrightarrow>
        (origin l', direction l') \<in> Sn \<or> l' \<in> set (butlast A)"
  proof (intro allI impI)
    fix c d prev blk ls l'
    assume "(c, d) \<in> Sn" "enters b c d prev blk" "interact blk (Laser prev d) = Inr ls"
      "l' \<in> set ls"
    with inv have "(origin l', direction l') \<in> Sn \<or> l' \<in> set A"
      unfolding sim_inv_def by blast
    with * show "(origin l', direction l') \<in> Sn \<or> l' \<in> set (butlast A)" by blast
  qed
  show ?thesis unfolding sim_inv_def using a t e by blast
qed

lemma sim_inv_expand:
  assumes inv: "sim_inv b V Sn A" and ne: "A \<noteq> []"
    and w: "walk b (origin (last A)) (direction (last A)) V = Some (Inr (V', ls))"
  shows "sim_inv b V' (insert (origin (last A), direction (last A)) Sn) (butlast A @ ls)"
proof -
  let ?c = "origin (last A)" and ?d = "direction (last A)"
  let ?Sn = "insert (?c, ?d) Sn" and ?A = "butlast A @ ls"
  from walk_covers[OF w] have sub: "V \<subseteq> V'"
    and t: "\<And>p. touches b ?c ?d p \<Longrightarrow> p \<in> V'"
    and e: "\<And>prev blk. enters b ?c ?d prev blk \<Longrightarrow> interact blk (Laser prev ?d) = Inr ls"
    by blast+
  have *: "\<And>l. l \<in> set A \<Longrightarrow> (origin l, direction l) \<in> ?Sn \<or> l \<in> set ?A"
    using ne set_last_butlast[of A] by auto
  have a: "\<forall>l \<in> set (lasers b). (origin l, direction l) \<in> ?Sn \<or> l \<in> set ?A"
    using inv * unfolding sim_inv_def by blast
  have t': "\<forall>c d p. (c, d) \<in> ?Sn \<longrightarrow> touches b c d p \<longrightarrow> p \<in> V'"
  proof (intro allI impI)
    fix c d p assume cd: "(c, d) \<in> ?Sn" and tc: "touches b c d p"
    show "p \<in> V'"
    proof (cases "(c, d) \<in> Sn")
      case True
      with inv tc have "p \<in> V" unfolding sim_inv_def by blast
      with sub show ?thesis by blast
    next
      case False
      with cd have "c = ?c" "d = ?d" by auto
      with tc t show ?thesis by simp
    qed
  qed
  have e': "\<forall>c d prev blk ls' l'. (c, d) \<in> ?Sn \<longrightarrow> enters b c d prev blk \<longrightarrow>
        interact blk (Laser prev d) = Inr ls' \<longrightarrow> l' \<in> set ls' \<longrightarrow>
        (origin l', direction l') \<in> ?Sn \<or> l' \<in> set ?A"
  proof (intro allI impI)
    fix c d prev blk ls' l'
    assume cd: "(c, d) \<in> ?Sn" and en: "enters b c d prev blk"
      and ia: "interact blk (Laser prev d) = Inr ls'" and l': "l' \<in> set ls'"
    show "(origin l', direction l') \<in> ?Sn \<or> l' \<in> set ?A"
    proof (cases "(c, d) \<in> Sn")
      case True
      with inv en ia l' have "(origin l', direction l') \<in> Sn \<or> l' \<in> set A"
        unfolding sim_inv_def by blast
      with * show ?thesis by blast
    next
      case False
      with cd have c: "c = ?c" and d: "d = ?d" by auto
      from e[of prev blk] en ia have "ls' = ls" unfolding c d by simp
      with l' show ?thesis by simp
    qed
  qed
  show ?thesis unfolding sim_inv_def using a t' e' by blast
qed

lemma run_lasers_covers:
  "run_lasers b V Sn A = Some r \<Longrightarrow>
     \<forall>S. r = Inr S \<longrightarrow> sim_inv b V Sn A \<longrightarrow>
       (\<forall>l p. beam b l \<longrightarrow> touches b (origin l) (direction l) p \<longrightarrow> p \<in> S)"
proof (induct rule: run_lasers.raw_induct[rotated 1, consumes 1, case_names step])
  case (step run' self visited seen active r)
  show ?case
  proof (cases "active = []")
    case True
    with step(2) have r: "r = Inr visited" by simp
    show ?thesis
    proof (intro allI impI)
      fix S l p
      assume "r = Inr S" and inv: "sim_inv self visited seen active" and bm: "beam self l"
        and tc: "touches self (origin l) (direction l) p"
      with r have S: "S = visited" by simp
      from sim_inv_done[OF inv[unfolded True] bm] have "(origin l, direction l) \<in> seen" .
      with inv tc show "p \<in> S" unfolding S sim_inv_def by blast
    qed
  next
    case ne: False
    let ?c = "origin (last active)" and ?d = "direction (last active)"
    show ?thesis
    proof (cases "(?c, ?d) \<in> seen")
      case True
      with step(2) ne have rec: "run' self visited seen (butlast active) = Some r"
        by (simp add: Let_def)
      from step(1)[OF rec] sim_inv_skip[OF _ ne True] show ?thesis by blast
    next
      case False
      show ?thesis
      proof (intro allI impI)
        fix S l p
        assume r: "r = Inr S" and inv: "sim_inv self visited seen active" and bm: "beam self l"
          and tc: "touches self (origin l) (direction l) p"
        from step(2) ne False r obtain V' ls where
          w: "walk self ?c ?d visited = Some (Inr (V', ls))"
          and rec: "run' self V' (insert (?c, ?d) seen) (butlast active @ ls) = Some r"
          by (auto simp: Let_def split: option.splits sum.splits prod.splits)
        from step(1)[OF rec] r sim_inv_expand[OF inv ne w] bm tc show "p \<in> S" by blast
      qed
    qed
  qed
qed

lemma simulate_lasers_covers:
  assumes "simulate_lasers b = Some (Inr S)" and "beam b l"
    and "touches b (origin l) (direction l) p"
  shows "p \<in> S"
proof -
  have "sim_inv b {} {} (lasers b)" by (simp add: sim_inv_def)
  with run_lasers_covers[OF assms(1)[unfolded simulate_lasers_def]] assms(2,3)
  show ?thesis by blast
qed


lemma walk_in_bounds:
  "walk b cur d V = Some r \<Longrightarrow>
     \<forall>V' ls. r = Inr (V', ls) \<longrightarrow> V' \<subseteq> V \<union> {p. is_valid_position b p}"
proof (induct rule: walk.raw_induct[rotated 1, consumes 1, case_names step])
  case (step walk' self current dir visited r)
  let ?n = "add_Point current dir"
  show ?case
  proof (cases "is_valid_position self ?n")
    case False
    with step(2) show ?thesis by (auto simp: Let_def)
  next
    case valid: True
    show ?thesis
    proof (cases "grid self ?n")
      case None
      with step(2) valid have "walk' self ?n dir (insert ?n visited) = Some r"
        by (simp add: Let_def)
      from step(1)[OF this] valid show ?thesis by blast
    next
      case (Some block)
      with step(2) valid show ?thesis
        by (auto simp: Let_def split: sum.splits)
    qed
  qed
qed

lemma run_lasers_in_bounds:
  "run_lasers b V Sn A = Some r \<Longrightarrow>
     \<forall>S. r = Inr S \<longrightarrow> S \<subseteq> V \<union> {p. is_valid_position b p}"
proof (induct rule: run_lasers.raw_induct[rotated 1, consumes 1, case_names step])
  case (step run' self visited seen active r)
  show ?case
  proof (cases "active = []")
    case True
    with step(2) show ?thesis by auto
  next
    case ne: False
    let ?c = "origin (last active)" and ?d = "direction (last active)"
    show ?thesis
    proof (cases "(?c, ?d) \<in> seen")
      case True
      with step(2) ne have "run' self visited seen (butlast active) = Some r"
        by (simp add: Let_def)
      from step(1)[OF this] show ?thesis .
    next
      case False
      show ?thesis
      proof (intro allI impI)
        fix S assume r: "r = Inr S"
        from step(2) ne False r obtain V' ls where
          w: "walk self ?c ?d visited = Some (Inr (V', ls))"
          and rec: "run' self V' (insert (?c, ?d) seen) (butlast active @ ls) = Some r"
          by (auto simp: Let_def split: option.splits sum.splits prod.splits)
        from step(1)[OF rec] r have "S \<subseteq> V' \<union> {p. is_valid_position self p}" by blast
        moreover from walk_in_bounds[OF w] have "V' \<subseteq> visited \<union> {p. is_valid_position self p}"
          by blast
        ultimately show "S \<subseteq> visited \<union> {p. is_valid_position self p}" by blast
      qed
    qed
  qed
qed

text \<open>
  C2. One step of a beam in \<^verbatim>\<open>simulate_lasers\<close>: a step to a point outside the bounds
  ends the beam with the visited set unchanged and no new lasers; a step to an in-bounds
  point without a block records the point and walks on; a step to an in-bounds point with
  a block records the point, calls \<^verbatim>\<open>interact\<close> with the point before the step as the
  laser origin, and ends the walk with the lasers returned (or with the exception raised);
  the work-list loop then goes on with the returned lasers appended to the work-list.
  Hence, when the simulation returns a set, it holds every point touched by any beam of
  the board, the points that hold blocks included, and only in-bounds points.
\<close>

theorem simulate_lasers_steps:
  "(\<not> is_valid_position b (add_Point cur d) \<longrightarrow> walk b cur d V = Some (Inr (V, [])))
   \<and> (is_valid_position b (add_Point cur d) \<and> grid b (add_Point cur d) = None \<longrightarrow>
        walk b cur d V = walk b (add_Point cur d) d (insert (add_Point cur d) V))
   \<and> (is_valid_position b (add_Point cur d) \<and> grid b (add_Point cur d) = Some blk \<longrightarrow>
        walk b cur d V =
          (case interact blk (Laser cur d) of
             Inl e \<Rightarrow> Some (Inl e)
           | Inr new_lasers \<Rightarrow> Some (Inr (insert (add_Point cur d) V, new_lasers))))
   \<and> (A \<noteq> [] \<and> (origin (last A), direction (last A)) \<notin> Sn
        \<and> walk b (origin (last A)) (direction (last A)) V = Some (Inr (V', ls)) \<longrightarrow>
        run_lasers b V Sn A =
          run_lasers b V' (insert (origin (last A), direction (last A)) Sn) (butlast A @ ls))
   \<and> (simulate_lasers b = Some (Inr S) \<and> beam b l \<and> touches b (origin l) (direction l) p \<longrightarrow>
        p \<in> S)
   \<and> (simulate_lasers b = Some (Inr S) \<and> q \<in> S \<longrightarrow> is_valid_position b q)"
proof (intro conjI impI)
  assume "\<not> is_valid_position b (add_Point cur d)"
  then show "walk b cur d V = Some (Inr (V, []))"
    by (subst walk.simps) (simp add: Let_def)
next
  assume "is_valid_position b (add_Point cur d) \<and> grid b (add_Point cur d) = None"
  then show "walk b cur d V = walk b (add_Point cur d) d (insert (add_Point cur d) V)"
    by (subst walk.simps) (simp add: Let_def)
next
  assume "is_valid_position b (add_Point cur d) \<and> grid b (add_Point cur d) = Some blk"
  then show "walk b cur d V =
          (case interact blk (Laser cur d) of
             Inl e \<Rightarrow> Some (Inl e)
           | Inr new_lasers \<Rightarrow> Some (Inr (insert (add_Point cur d) V, new_lasers)))"
    by (subst walk.simps) (simp add: Let_def)
next
  assume "A \<noteq> [] \<and> (origin (last A), direction (last A)) \<notin> Sn
        \<and> walk b (origin (last A)) (direction (last A)) V = Some (Inr (V', ls))"
  then show "run_lasers b V Sn A =
          run_lasers b V' (insert (origin (last A), direction (last A)) Sn) (butlast A @ ls)"
    by (subst run_lasers.simps) (simp add: Let_def)
next
  assume "simulate_lasers b = Some (Inr S) \<and> beam b l \<and> touches b (origin l) (direction l) p"
  then show "p \<in> S" using simulate_lasers_covers by blast
next
  assume a: "simulate_lasers b = Some (Inr S) \<and> q \<in> S"
  with run_lasers_in_bounds[of b "{}" "{}" "lasers b" "Inr S"] show "is_valid_position b q"
    by (auto simp: simulate_lasers_def)
qed

theorem simulate_lasers_steps_witness:
  "\<not> is_valid_position ex_mirror (add_Point (Point 2 0) (Point 0 (- 1)))
   \<and> walk ex_mirror (Point 2 0) (Point 0 (- 1)) {} = Some (Inr ({}, []))
   \<and> is_valid_position ex_mirror (add_Point (Point 2 0) (Point 0 1))
   \<and> grid ex_mirror (add_Point (Point 2 0) (Point 0 1)) = None
   \<and> walk ex_mirror (Point 2 0) (Point 0 1) {} = walk ex_mirror (Point 2 1) (Point 0 1) {Point 2 1}
   \<and> is_valid_position ex_mirror (add_Point (Point 2 1) (Point 0 1))
   \<and> grid ex_mirror (add_Point (Point 2 1) (Point 0 1)) = Some (Block ReflectBlock (Point 2 2) True)
   \<and> walk ex_mirror (Point 2 1) (Point 0 1) {Point 2 1}
       = Some (Inr ({Point 2 2, Point 2 1}, [Laser (Point 2 2) (Point 0 (- 1))]))
   \<and> run_lasers ex_mirror {} {} [Laser (Point 2 0) (Point 0 1)]
       = run_lasers ex_mirror {Point 2 1, Point 2 2} {(Point 2 0, Point 0 1)}
           [Laser (Point 2 2) (Point 0 (- 1))]
   \<and> simulate_lasers ex_mirror = Some (Inr {Point 2 0, Point 2 1, Point 2 2})
   \<and> beam ex_mirror (Laser (Point 2 2) (Point 0 (- 1)))
   \<and> touches ex_mirror (Point 2 2) (Point 0 (- 1)) (Point 2 0)
   \<and> touches ex_mirror (Point 2 0) (Point 0 1) (Point 2 2)
   \<and> Point 2 2 \<in> {Point 2 0, Point 2 1, Point 2 2}
   \<and> is_valid_position ex_mirror (Point 2 0)"
proof -
  note ev = ex_mirror_def add_laser_def Board_init_def is_valid_position_def add_Point_def
  let ?blk = "Block ReflectBlock (Point 2 2) True"
  let ?src = "Laser (Point 2 0) (Point 0 1)"
  let ?S = "{Point 2 0, Point 2 1, Point 2 2}"
  have out: "\<not> is_valid_position ex_mirror (add_Point (Point 2 0) (Point 0 (- 1)))"
    by (simp add: ev)
  have v1: "is_valid_position ex_mirror (add_Point (Point 2 0) (Point 0 1))" by (simp add: ev)
  have g1: "grid ex_mirror (add_Point (Point 2 0) (Point 0 1)) = None" by (simp add: ev)
  have v2: "is_valid_position ex_mirror (add_Point (Point 2 1) (Point 0 1))" by (simp add: ev)
  have g2: "grid ex_mirror (add_Point (Point 2 1) (Point 0 1)) = Some ?blk" by (simp add: ev)
  have v3: "is_valid_position ex_mirror (add_Point (Point 2 2) (Point 0 (- 1)))" by (simp add: ev)
  have g3: "grid ex_mirror (add_Point (Point 2 2) (Point 0 (- 1))) = None" by (simp add: ev)
  have v4: "is_valid_position ex_mirror (add_Point (Point 2 1) (Point 0 (- 1)))" by (simp add: ev)
  have ia: "interact ?blk (Laser (Point 2 1) (Point 0 1)) = Inr [Laser (Point 2 2) (Point 0 (- 1))]"
    by (simp add: interact_def ReflectBlock_interact_def)
  have a1: "add_Point (Point 2 0) (Point 0 1) = Point 2 1" by (simp add: add_Point_def)
  have a2: "add_Point (Point 2 1) (Point 0 1) = Point 2 2" by (simp add: add_Point_def)
  have a3: "add_Point (Point 2 2) (Point 0 (- 1)) = Point 2 1" by (simp add: add_Point_def)
  have a4: "add_Point (Point 2 1) (Point 0 (- 1)) = Point 2 0" by (simp add: add_Point_def)
  have src: "lasers ex_mirror = [?src]" by (simp add: ev)
  have sim: "simulate_lasers ex_mirror = Some (Inr ?S)" by code_simp
  have w1: "walk ex_mirror (Point 2 0) (Point 0 (- 1)) {} = Some (Inr ({}, []))"
    using simulate_lasers_steps[of ex_mirror "Point 2 0" "Point 0 (- 1)" "{}"] out by blast
  have w2: "walk ex_mirror (Point 2 0) (Point 0 1) {}
              = walk ex_mirror (Point 2 1) (Point 0 1) {Point 2 1}"
    using simulate_lasers_steps[of ex_mirror "Point 2 0" "Point 0 1" "{}"] v1 g1
    unfolding a1 by blast
  have w3: "walk ex_mirror (Point 2 1) (Point 0 1) {Point 2 1}
              = Some (Inr ({Point 2 2, Point 2 1}, [Laser (Point 2 2) (Point 0 (- 1))]))"
    using simulate_lasers_steps[of ex_mirror "Point 2 1" "Point 0 1" "{Point 2 1}" ?blk] v2 g2 ia
    unfolding a2 by simp
  have w23: "walk ex_mirror (origin (last [?src])) (direction (last [?src])) {}
              = Some (Inr ({Point 2 1, Point 2 2}, [Laser (Point 2 2) (Point 0 (- 1))]))"
    using w2 w3 by (simp add: insert_commute)
  have r: "run_lasers ex_mirror {} {} [?src]
       = run_lasers ex_mirror {Point 2 1, Point 2 2} {(Point 2 0, Point 0 1)}
           [Laser (Point 2 2) (Point 0 (- 1))]"
    using simulate_lasers_steps[of ex_mirror _ _ "{}" _ "[?src]" "{}" "{Point 2 1, Point 2 2}"
            "[Laser (Point 2 2) (Point 0 (- 1))]"] w23
    by simp
  have en: "enters ex_mirror (Point 2 0) (Point 0 1) (Point 2 1) ?blk"
    using enter_later[of ex_mirror "Point 2 0" "Point 0 1" "Point 2 1" ?blk]
      enter_next[of ex_mirror "Point 2 1" "Point 0 1" ?blk] v1 g1 v2 g2
    unfolding a1 by blast
  have b0: "beam ex_mirror ?src" by (rule beam_source) (simp add: src)
  have b1: "beam ex_mirror (Laser (Point 2 2) (Point 0 (- 1)))"
    using beam_emitted[OF b0, of "Point 2 1" ?blk "[Laser (Point 2 2) (Point 0 (- 1))]"
            "Laser (Point 2 2) (Point 0 (- 1))"] en ia
    by simp
  have t1: "touches ex_mirror (Point 2 2) (Point 0 (- 1)) (Point 2 0)"
    using touch_later[of ex_mirror "Point 2 2" "Point 0 (- 1)" "Point 2 0"]
      touch_next[of ex_mirror "Point 2 1" "Point 0 (- 1)"] v3 g3 v4
    unfolding a3 a4 by blast
  have t2: "touches ex_mirror (Point 2 0) (Point 0 1) (Point 2 2)"
    using touch_later[of ex_mirror "Point 2 0" "Point 0 1" "Point 2 2"]
      touch_next[of ex_mirror "Point 2 1" "Point 0 1"] v1 g1 v2
    unfolding a1 a2 by blast
  have c1: "Point 2 0 \<in> ?S"
    using simulate_lasers_steps[of ex_mirror _ _ _ _ _ _ _ _ ?S
            "Laser (Point 2 2) (Point 0 (- 1))" "Point 2 0"] sim b1 t1
    by simp
  have c2: "Point 2 2 \<in> ?S"
    using simulate_lasers_steps[of ex_mirror _ _ _ _ _ _ _ _ ?S ?src "Point 2 2"] sim b0 t2
    by simp
  have c3: "is_valid_position ex_mirror (Point 2 0)"
    using simulate_lasers_steps[of ex_mirror _ _ _ _ _ _ _ _ ?S _ _ "Point 2 0"] sim c1
    by blast
  show ?thesis
    using out w1 v1 g1 w2 v2 g2 w3 r sim b1 t1 t2 c2 c3 by simp
qed

section \<open>Termination of the simulation\<close>

text \<open>
  A walk in a direction other than \<open>(0, 0)\<close> leaves the bounds or meets a block after
  finitely many steps, and the work-list loop expands each (origin, direction) pair at
  most once, out of a finite set of pairs. So the simulation of a board all of whose
  lasers have a direction other than \<open>(0, 0)\<close> ends: it returns a set or raises the
  exception of \<^verbatim>\<open>interact\<close>. Cycles of reflect and refract blocks make no difference.
\<close>

lemma steps_left_decreases:
  assumes "d \<noteq> Point 0 0" and "is_valid_position b (add_Point cur d)"
  shows "steps_left b d (add_Point cur d) < steps_left b d cur"
proof -
  from assms(1) have "px d \<noteq> 0 \<or> py d \<noteq> 0" by (cases d) auto
  with assms(2) show ?thesis
    by (auto simp: steps_left_def is_valid_position_def add_Point_def)
qed

lemma walk_terminates:
  assumes "d \<noteq> Point 0 0"
  shows "\<exists>r. walk b cur d V = Some r"
proof (induction "steps_left b d cur" arbitrary: cur V rule: less_induct)
  case less
  let ?n = "add_Point cur d"
  show ?case
  proof (cases "is_valid_position b ?n \<and> grid b ?n = None")
    case True
    with steps_left_decreases[OF assms, of b cur] less[of ?n "insert ?n V"]
    obtain r where "walk b ?n d (insert ?n V) = Some r" by blast
    with True show ?thesis by (subst walk.simps) (simp add: Let_def)
  next
    case False
    then show ?thesis
      by (subst walk.simps) (auto simp: Let_def split: option.splits sum.splits)
  qed
qed


lemma interact_emits:
  "interact blk (Laser prev d) = Inr ls \<Longrightarrow>
     length ls \<le> 2 \<and> (\<forall>l \<in> set ls. origin l = pos blk \<and> direction l \<in> flips d)"
  by (cases d)
     (auto simp: interact_def Block_interact_def ReflectBlock_interact_def
        OpaqueBlock_interact_def RefractBlock_interact_def Let_def flips_def
      split: BlockKind.splits if_splits)

lemma walk_emits:
  "walk b cur d V = Some r \<Longrightarrow>
     \<forall>V' ls. r = Inr (V', ls) \<longrightarrow>
       length ls \<le> 2 \<and>
       (\<forall>l \<in> set ls. (\<exists>k blk. is_valid_position b k \<and> grid b k = Some blk \<and> origin l = pos blk)
                      \<and> direction l \<in> flips d)"
proof (induct rule: walk.raw_induct[rotated 1, consumes 1, case_names step])
  case (step walk' self current dir visited r)
  let ?n = "add_Point current dir"
  show ?case
  proof (cases "is_valid_position self ?n")
    case False
    with step(2) show ?thesis by (auto simp: Let_def)
  next
    case valid: True
    show ?thesis
    proof (cases "grid self ?n")
      case None
      with step(2) valid have "walk' self ?n dir (insert ?n visited) = Some r"
        by (simp add: Let_def)
      from step(1)[OF this] show ?thesis .
    next
      case (Some block)
      show ?thesis
      proof (intro allI impI)
        fix V' ls assume "r = Inr (V', ls)"
        with step(2) valid Some have "interact block (Laser current dir) = Inr ls"
          by (auto simp: Let_def split: sum.splits)
        from interact_emits[OF this] valid Some
        show "length ls \<le> 2 \<and>
          (\<forall>l \<in> set ls. (\<exists>k blk. is_valid_position self k \<and> grid self k = Some blk \<and> origin l = pos blk)
                      \<and> direction l \<in> flips dir)"
          by blast
      qed
    qed
  qed
qed

lemma flips_closed: "d' \<in> flips d \<Longrightarrow> e \<in> flips d' \<Longrightarrow> e \<in> flips d"
  by (cases d) (auto simp: flips_def)

lemma flips_nonzero: "d' \<in> flips d \<Longrightarrow> d \<noteq> Point 0 0 \<Longrightarrow> d' \<noteq> Point 0 0"
  by (cases d) (auto simp: flips_def)

lemma finite_valid_positions: "finite {k. is_valid_position b k}"
proof -
  have "{k. is_valid_position b k} \<subseteq> (\<lambda>(i, j). Point i j) ` ({0..<width b} \<times> {0..<height b})"
  proof
    fix k assume "k \<in> {k. is_valid_position b k}"
    then have "(px k, py k) \<in> {0..<width b} \<times> {0..<height b}"
      by (simp add: is_valid_position_def)
    then have "(\<lambda>(i, j). Point i j) (px k, py k) \<in> (\<lambda>(i, j). Point i j) ` ({0..<width b} \<times> {0..<height b})"
      by (rule imageI)
    then show "k \<in> (\<lambda>(i, j). Point i j) ` ({0..<width b} \<times> {0..<height b})" by simp
  qed
  then show ?thesis by (rule finite_subset) simp
qed

lemma finite_beam_ids: "finite (beam_ids b)"
proof -
  have "{pos blk | k blk. is_valid_position b k \<and> grid b k = Some blk}
          \<subseteq> (\<lambda>k. pos (the (grid b k))) ` {k. is_valid_position b k}"
    by force
  then have "finite {pos blk | k blk. is_valid_position b k \<and> grid b k = Some blk}"
    by (rule finite_subset) (simp add: finite_valid_positions)
  moreover have "finite (\<Union>l \<in> set (lasers b). flips (direction l))"
    by (simp add: flips_def)
  ultimately show ?thesis by (simp add: beam_ids_def)
qed

lemma beam_ids_nonzero:
  assumes "\<forall>l \<in> set (lasers b). direction l \<noteq> Point 0 0" and "(c, d) \<in> beam_ids b"
  shows "d \<noteq> Point 0 0"
  using assms by (auto simp: beam_ids_def dest: flips_nonzero)

lemma beam_ids_sources: "l \<in> set (lasers b) \<Longrightarrow> (origin l, direction l) \<in> beam_ids b"
  by (auto simp: beam_ids_def flips_def)

lemma beam_ids_children:
  assumes "(c, d) \<in> beam_ids b" and "walk b c d V = Some (Inr (V', ls))" and "l \<in> set ls"
  shows "(origin l, direction l) \<in> beam_ids b"
proof -
  from walk_emits[OF assms(2)] assms(3) obtain k blk where
    "is_valid_position b k" "grid b k = Some blk" "origin l = pos blk"
    and fl: "direction l \<in> flips d" by blast
  then have "origin l \<in> {pos blk | k blk. is_valid_position b k \<and> grid b k = Some blk}" by blast
  moreover from assms(1) obtain l0 where "l0 \<in> set (lasers b)" "d \<in> flips (direction l0)"
    by (auto simp: beam_ids_def)
  with fl have "direction l \<in> (\<Union>l \<in> set (lasers b). flips (direction l))"
    by (auto dest: flips_closed)
  ultimately show ?thesis by (simp add: beam_ids_def)
qed

lemma run_lasers_terminates:
  assumes nz: "\<forall>l \<in> set (lasers b). direction l \<noteq> Point 0 0"
  shows "\<forall>l \<in> set A. (origin l, direction l) \<in> beam_ids b \<Longrightarrow> \<exists>r. run_lasers b V Sn A = Some r"
proof (induction "2 * card (beam_ids b - Sn) + length A" arbitrary: V Sn A rule: less_induct)
  case less
  show ?case
  proof (cases "A = []")
    case True
    then show ?thesis by (subst run_lasers.simps) simp
  next
    case ne: False
    let ?l = "last A"
    let ?c = "origin ?l" and ?d = "direction ?l"
    from ne have in_A: "?l \<in> set A" by simp
    have rest: "\<forall>l \<in> set (butlast A). (origin l, direction l) \<in> beam_ids b"
      using less.prems by (auto dest: in_set_butlastD)
    show ?thesis
    proof (cases "(?c, ?d) \<in> Sn")
      case True
      from ne have "length (butlast A) < length A" by simp
      then have "2 * card (beam_ids b - Sn) + length (butlast A) < 2 * card (beam_ids b - Sn) + length A"
        by simp
      from less.hyps[OF this rest] obtain r where "run_lasers b V Sn (butlast A) = Some r" by blast
      with ne True show ?thesis by (subst run_lasers.simps) (simp add: Let_def)
    next
      case new: False
      from less.prems in_A have id: "(?c, ?d) \<in> beam_ids b" by blast
      with nz have "?d \<noteq> Point 0 0" by (rule beam_ids_nonzero)
      from walk_terminates[OF this] obtain w where w: "walk b ?c ?d V = Some w" by blast
      show ?thesis
      proof (cases w)
        case (Inl e)
        with ne new w show ?thesis by (subst run_lasers.simps) (simp add: Let_def)
      next
        case (Inr res)
        obtain V' ls where res: "res = (V', ls)" by (cases res)
        with w Inr have w': "walk b ?c ?d V = Some (Inr (V', ls))" by simp
        from walk_emits[OF w'] have len: "length ls \<le> 2" by blast
        have A': "\<forall>l \<in> set (butlast A @ ls). (origin l, direction l) \<in> beam_ids b"
          using rest beam_ids_children[OF id w'] by auto
        have eq: "beam_ids b - insert (?c, ?d) Sn = (beam_ids b - Sn) - {(?c, ?d)}" by blast
        have mem: "(?c, ?d) \<in> beam_ids b - Sn" using id new by simp
        have fin: "finite (beam_ids b - Sn)" using finite_beam_ids[of b] by simp
        have "card (beam_ids b - insert (?c, ?d) Sn) < card (beam_ids b - Sn)"
          unfolding eq using fin mem by (rule card_Diff1_less)
        moreover have "length (butlast A @ ls) \<le> length A + 1"
          using ne len by (cases A rule: rev_cases) auto
        ultimately
        have "2 * card (beam_ids b - insert (?c, ?d) Sn) + length (butlast A @ ls)
                < 2 * card (beam_ids b - Sn) + length A"
          by arith
        from less.hyps[OF this A'] obtain r where
          "run_lasers b V' (insert (?c, ?d) Sn) (butlast A @ ls) = Some r" by blast
        with ne new w' show ?thesis by (subst run_lasers.simps) (simp add: Let_def)
      qed
    qed
  qed
qed

lemma simulate_lasers_terminates:
  assumes "\<forall>l \<in> set (lasers b). direction l \<noteq> Point 0 0"
  shows "\<exists>r. simulate_lasers b = Some r"
  unfolding simulate_lasers_def
  by (rule run_lasers_terminates[OF assms]) (simp add: beam_ids_sources)

text \<open>
  A laser of direction \<open>(0, 0)\<close> that starts on an in-bounds point without a block never
  moves: its walk has no result.
\<close>

lemma walk_zero_direction:
  "walk b cur d V = Some r \<Longrightarrow>
     \<not> (d = Point 0 0 \<and> is_valid_position b cur \<and> grid b cur = None)"
proof (induct rule: walk.raw_induct[rotated 1, consumes 1, case_names step])
  case (step walk' self current dir visited r)
  show ?case
  proof
    assume a: "dir = Point 0 0 \<and> is_valid_position self current \<and> grid self current = None"
    then have same: "add_Point current dir = current" by (simp add: add_Point_def)
    with step(2) a have "walk' self current dir (insert current visited) = Some r"
      by (simp add: Let_def)
    from step(1)[OF this] a show False by simp
  qed
qed

lemma walk_stuck:
  "is_valid_position b cur \<Longrightarrow> grid b cur = None \<Longrightarrow> walk b cur (Point 0 0) V = None"
  using walk_zero_direction[of b cur "Point 0 0" V] by (cases "walk b cur (Point 0 0) V") auto

text \<open>
  C3. The simulation is claimed to terminate on every board with finite bounds, finitely
  many blocks and finitely many lasers. On the 1 by 1 board whose only laser was added by
  \<^verbatim>\<open>add_laser(0, 0, 0, 0)\<close> it does not: the laser has direction \<open>(0, 0)\<close>, stays on
  the in-bounds point \<open>(0, 0)\<close>, and the inner loop never ends.
\<close>

theorem simulate_lasers_stuck: "simulate_lasers stuck_board = None"
proof -
  have w: "walk stuck_board (Point 0 0) (Point 0 0) {} = None"
    by (rule walk_stuck) (simp_all add: stuck_board_def add_laser_def Board_init_def is_valid_position_def)
  have l: "lasers stuck_board = [Laser (Point 0 0) (Point 0 0)]"
    by (simp add: stuck_board_def add_laser_def Board_init_def)
  show ?thesis
    unfolding simulate_lasers_def l
    by (subst run_lasers.simps) (simp add: w)
qed

section \<open>Repeated simulation\<close>

text \<open>
  A run of the loop on the store changes no list object but the work-list, and its
  outcome is the outcome of \<open>run_lasers\<close> on the contents of the work-list; conversely
  every outcome of \<open>run_lasers\<close> is the outcome of the loop on any store that holds the
  list.
\<close>

lemma run_obj_frame:
  "run_lasers_obj self a st V Sn = Some r \<Longrightarrow>
     next_addr (snd r) = next_addr st \<and> (\<forall>x. x \<noteq> a \<longrightarrow> cells (snd r) x = cells st x)"
proof (induct rule: run_lasers_obj.raw_induct[rotated 1, consumes 1, case_names step])
  case (step run' self a st V Sn r)
  show ?case
  proof (cases "cells st a = []")
    case True
    with step(2) show ?thesis by auto
  next
    case ne: False
    let ?l = "last (cells st a)"
    let ?st1 = "st\<lparr>cells := (cells st)(a := butlast (cells st a))\<rparr>"
    show ?thesis
    proof (cases "(origin ?l, direction ?l) \<in> Sn")
      case True
      with step(2) ne have "run' self a ?st1 V Sn = Some r" by (simp add: Let_def)
      from step(1)[OF this] show ?thesis by simp
    next
      case False
      show ?thesis
      proof (cases "walk self (origin ?l) (direction ?l) V")
        case None
        with step(2) ne False show ?thesis by (simp add: Let_def)
      next
        case (Some w)
        show ?thesis
        proof (cases w)
          case (Inl e)
          with step(2) ne False Some show ?thesis by (auto simp: Let_def)
        next
          case (Inr res)
          obtain V' ls where res: "res = (V', ls)" by (cases res)
          let ?st2 = "?st1\<lparr>cells := (cells ?st1)(a := cells ?st1 a @ ls)\<rparr>"
          from step(2) ne False Some Inr res
          have "run' self a ?st2 V' (insert (origin ?l, direction ?l) Sn) = Some r"
            by (simp add: Let_def)
          from step(1)[OF this] show ?thesis by simp
        qed
      qed
    qed
  qed
qed

lemma run_obj_pure:
  "run_lasers_obj self a st V Sn = Some r \<Longrightarrow> run_lasers self V Sn (cells st a) = Some (fst r)"
proof (induct rule: run_lasers_obj.raw_induct[rotated 1, consumes 1, case_names step])
  case (step run' self a st V Sn r)
  show ?case
  proof (cases "cells st a = []")
    case True
    with step(2) show ?thesis by (subst run_lasers.simps) auto
  next
    case ne: False
    let ?l = "last (cells st a)"
    let ?st1 = "st\<lparr>cells := (cells st)(a := butlast (cells st a))\<rparr>"
    show ?thesis
    proof (cases "(origin ?l, direction ?l) \<in> Sn")
      case True
      with step(2) ne have "run' self a ?st1 V Sn = Some r" by (simp add: Let_def)
      from step(1)[OF this] have "run_lasers self V Sn (butlast (cells st a)) = Some (fst r)"
        by simp
      with ne True show ?thesis by (subst run_lasers.simps) (simp add: Let_def)
    next
      case False
      show ?thesis
      proof (cases "walk self (origin ?l) (direction ?l) V")
        case None
        with step(2) ne False show ?thesis by (simp add: Let_def)
      next
        case (Some w)
        show ?thesis
        proof (cases w)
          case (Inl e)
          with step(2) ne False Some have "fst r = Inl e" by (auto simp: Let_def)
          with ne False Some Inl show ?thesis by (subst run_lasers.simps) (simp add: Let_def)
        next
          case (Inr res)
          obtain V' ls where res: "res = (V', ls)" by (cases res)
          let ?st2 = "?st1\<lparr>cells := (cells ?st1)(a := cells ?st1 a @ ls)\<rparr>"
          from step(2) ne False Some Inr res
          have "run' self a ?st2 V' (insert (origin ?l, direction ?l) Sn) = Some r"
            by (simp add: Let_def)
          from step(1)[OF this]
          have "run_lasers self V' (insert (origin ?l, direction ?l) Sn) (butlast (cells st a) @ ls)
                  = Some (fst r)" by simp
          with ne False Some Inr res show ?thesis
            by (subst run_lasers.simps) (simp add: Let_def)
        qed
      qed
    qed
  qed
qed

lemma run_pure_obj:
  "run_lasers self V Sn A = Some res \<Longrightarrow>
     \<forall>(st :: store) a. cells st a = A \<longrightarrow> (\<exists>st'. run_lasers_obj self a st V Sn = Some (res, st'))"
proof (induct rule: run_lasers.raw_induct[rotated 1, consumes 1, case_names step])
  case (step run' self V Sn A res)
  show ?case
  proof (intro allI impI)
    fix st :: store and a assume A: "cells st a = A"
    show "\<exists>st'. run_lasers_obj self a st V Sn = Some (res, st')"
    proof (cases "A = []")
      case True
      with step(2) A show ?thesis by (subst run_lasers_obj.simps) auto
    next
      case ne: False
      let ?l = "last A"
      let ?st1 = "st\<lparr>cells := (cells st)(a := butlast A)\<rparr>"
      have c1: "cells ?st1 a = butlast A" by simp
      show ?thesis
      proof (cases "(origin ?l, direction ?l) \<in> Sn")
        case True
        with step(2) ne have "run' self V Sn (butlast A) = Some res" by (simp add: Let_def)
        from step(1)[OF this] c1 obtain st' where
          "run_lasers_obj self a ?st1 V Sn = Some (res, st')" by blast
        with ne True A show ?thesis by (subst run_lasers_obj.simps) (simp add: Let_def)
      next
        case False
        show ?thesis
        proof (cases "walk self (origin ?l) (direction ?l) V")
          case None
          with step(2) ne False show ?thesis by (simp add: Let_def)
        next
          case (Some w)
          show ?thesis
          proof (cases w)
            case (Inl e)
            with step(2) ne False Some have "res = Inl e" by (auto simp: Let_def)
            with ne False Some Inl A show ?thesis
              by (subst run_lasers_obj.simps) (simp add: Let_def)
          next
            case (Inr w')
            obtain V' ls where w': "w' = (V', ls)" by (cases w')
            let ?st2 = "?st1\<lparr>cells := (cells ?st1)(a := cells ?st1 a @ ls)\<rparr>"
            have c2: "cells ?st2 a = butlast A @ ls" by simp
            from step(2) ne False Some Inr w'
            have "run' self V' (insert (origin ?l, direction ?l) Sn) (butlast A @ ls) = Some res"
              by (simp add: Let_def)
            from step(1)[OF this] c2 obtain st' where
              "run_lasers_obj self a ?st2 V' (insert (origin ?l, direction ?l) Sn) = Some (res, st')"
              by blast
            with ne False Some Inr w' A show ?thesis
              by (subst run_lasers_obj.simps) (simp add: Let_def)
          qed
        qed
      qed
    qed
  qed
qed

text \<open>
  C8. Two calls are claimed to return two equal sets on every board. On the board
  \<open>ex_diagonal\<close> the diagonal beam steps from \<open>(1, 1)\<close> onto the reflect block at
  \<open>(2, 2)\<close>; the point before the block differs from it on both axes, \<^verbatim>\<open>interact\<close>
  raises, and the call returns no set.
\<close>

theorem simulate_lasers_raises:
  "simulate_lasers ex_diagonal = Some (Inl ValueError_entry)
   \<and> map_option fst (simulate_lasers_obj ex_diagonal 0 (store_of ex_diagonal))
       = Some (Inl ValueError_entry)"
  by code_simp

text \<open>
  C8, as the code has it. Let the list of lasers of the board be an allocated list object
  of the store. A call of \<^verbatim>\<open>simulate_lasers\<close> that ends leaves that list object as it
  was, since \<^verbatim>\<open>pop\<close> and \<^verbatim>\<open>extend\<close> act on the newly allocated copy. Its outcome is the
  one \<open>simulate_lasers\<close> computes from the board, and a second call on the store the first
  one left, with nothing done in between, ends with the same outcome: an equal set when the
  first call returned a set, the same exception when it raised.
\<close>

theorem simulate_lasers_repeatable:
  assumes "lasers_ref < next_addr st"
    and "cells st lasers_ref = lasers self"
    and "simulate_lasers_obj self lasers_ref st = Some (res, st1)"
  shows "cells st1 lasers_ref = lasers self
         \<and> lasers_ref < next_addr st1
         \<and> simulate_lasers self = Some res
         \<and> (\<exists>st2. simulate_lasers_obj self lasers_ref st1 = Some (res, st2))"
proof -
  let ?a = "next_addr st"
  let ?st0 = "st\<lparr>cells := (cells st)(?a := cells st lasers_ref), next_addr := Suc ?a\<rparr>"
  from assms(3) have run: "run_lasers_obj self ?a ?st0 {} {} = Some (res, st1)"
    by (simp add: simulate_lasers_obj_def Let_def)
  from assms(1) have ne: "lasers_ref \<noteq> ?a" by simp
  from run_obj_frame[OF run] have nx: "next_addr st1 = Suc ?a"
    and fr: "\<forall>x. x \<noteq> ?a \<longrightarrow> cells st1 x = cells ?st0 x" by simp_all
  from fr ne have "cells st1 lasers_ref = cells ?st0 lasers_ref" by blast
  with ne assms(2) have kept: "cells st1 lasers_ref = lasers self" by simp
  from nx assms(1) have alloc: "lasers_ref < next_addr st1" by simp
  from run_obj_pure[OF run] assms(2) have pure: "run_lasers self {} {} (lasers self) = Some res"
    by simp
  let ?b = "next_addr st1"
  let ?st1 = "st1\<lparr>cells := (cells st1)(?b := cells st1 lasers_ref), next_addr := Suc ?b\<rparr>"
  have "cells ?st1 ?b = lasers self" using kept by simp
  with run_pure_obj[OF pure] obtain st2 where
    "run_lasers_obj self ?b ?st1 {} {} = Some (res, st2)" by blast
  then have again: "simulate_lasers_obj self lasers_ref st1 = Some (res, st2)"
    by (simp add: simulate_lasers_obj_def Let_def)
  from kept alloc pure again show ?thesis by (auto simp: simulate_lasers_def)
qed

theorem simulate_lasers_repeatable_witness:
  "\<exists>st1 st2.
     simulate_lasers_obj ex_mirror 0 (store_of ex_mirror)
       = Some (Inr {Point 2 0, Point 2 1, Point 2 2}, st1)
     \<and> cells st1 0 = [Laser (Point 2 0) (Point 0 1)]
     \<and> simulate_lasers_obj ex_mirror 0 st1 = Some (Inr {Point 2 0, Point 2 1, Point 2 2}, st2)"
proof -
  let ?S = "{Point 2 0, Point 2 1, Point 2 2}"
  have src: "lasers ex_mirror = [Laser (Point 2 0) (Point 0 1)]"
    by (simp add: ex_mirror_def add_laser_def Board_init_def)
  have h1: "0 < next_addr (store_of ex_mirror)" by (simp add: store_of_def)
  have h2: "cells (store_of ex_mirror) 0 = lasers ex_mirror" by (simp add: store_of_def)
  have "map_option fst (simulate_lasers_obj ex_mirror 0 (store_of ex_mirror)) = Some (Inr ?S)"
    by code_simp
  then obtain st1 where h3: "simulate_lasers_obj ex_mirror 0 (store_of ex_mirror) = Some (Inr ?S, st1)"
    by (cases "simulate_lasers_obj ex_mirror 0 (store_of ex_mirror)") auto
  from simulate_lasers_repeatable[OF h1 h2 h3] src h3 show ?thesis by auto
qed

section \<open>The placement search and the board\<close>

lemma interact_error:
  "interact blk l = Inl e \<Longrightarrow> e = ValueError_entry \<or> e = NotImplementedError"
  by (auto simp: interact_def Block_interact_def ReflectBlock_interact_def
        OpaqueBlock_interact_def RefractBlock_interact_def Let_def
      split: BlockKind.splits if_splits)

lemma walk_error:
  "walk b c d V = Some r \<Longrightarrow> \<forall>e. r = Inl e \<longrightarrow> e = ValueError_entry \<or> e = NotImplementedError"
proof (induct rule: walk.raw_induct[rotated 1, consumes 1, case_names step])
  case (step walk' self current dir visited r)
  then show ?case
    by (auto simp: Let_def split: if_splits option.splits sum.splits dest: interact_error)
qed

lemma run_lasers_error:
  "run_lasers b V S A = Some r \<Longrightarrow> \<forall>e. r = Inl e \<longrightarrow> e = ValueError_entry \<or> e = NotImplementedError"
proof (induct rule: run_lasers.raw_induct[rotated 1, consumes 1, case_names step])
  case (step run' self visited seen active r)
  then show ?case
    by (auto simp: Let_def split: if_splits option.splits sum.splits prod.splits dest: walk_error)
qed

lemma is_solved_error:
  "is_solved b = Some (Inl e) \<Longrightarrow> e = ValueError_entry \<or> e = NotImplementedError"
  by (auto simp: is_solved_def simulate_lasers_def split: option.splits sum.splits
      dest: run_lasers_error)

lemma new_block_pos: "new_block t p = Inr blk \<Longrightarrow> pos blk = p"
  by (auto simp: new_block_def split: if_splits)

lemma add_block_free:
  "grid b (pos blk) = None \<Longrightarrow> add_block b blk = Inr (b\<lparr>grid := (grid b)(pos blk \<mapsto> blk)\<rparr>)"
  by (simp add: add_block_def)

lemma try_place_not_occupied:
  "try_place bp b sol i \<noteq> Some (Inl ValueError_occupied)"
  "try_positions bp ps b sol i \<noteq> Some (Inl ValueError_occupied)"
proof (induction bp b sol i and bp ps b sol i rule: try_place_try_positions.induct)
  case (1 bp b sol i)
  then show ?case
    by (auto split: option.splits sum.splits dest: is_solved_error)
next
  case (2 bp b sol i)
  then show ?case by simp
next
  case (3 bp p rest b sol i)
  show ?case
  proof (cases "grid b p \<noteq> None")
    case True
    with 3(1) show ?thesis by simp
  next
    case free: False
    show ?thesis
    proof (cases "i < length bp")
      case False
      with free show ?thesis by simp
    next
      case True
      show ?thesis
      proof (cases "new_block (bp ! i) p")
        case (Inl e)
        with free True show ?thesis by (auto simp: new_block_def split: if_splits)
      next
        case (Inr blk)
        then have pb: "pos blk = p" by (rule new_block_pos)
        with free have ab: "add_block b blk = Inr (b\<lparr>grid := (grid b)(p \<mapsto> blk)\<rparr>)"
          using add_block_free[of b blk] by simp
        note ih1 = 3(2)[OF free _ Inr ab]
        note ih2 = 3(3)[OF free _ Inr ab]
        from free True Inr ab ih1 ih2 show ?thesis
          by (auto simp: del_grid_def pop_def split: option.splits sum.splits prod.splits if_splits)
      qed
    qed
  qed
qed

lemma undo_place: "grid b p = None \<Longrightarrow>
   b\<lparr>grid := (grid b)(p \<mapsto> blk)\<rparr>\<lparr>grid := ((grid b)(p \<mapsto> blk))(p := None)\<rparr> = b"
  by (simp add: fun_upd_idem)

lemma placed_ok_step:
  assumes free: "grid b p = None" and pb: "pos blk = p"
    and ok: "placed_ok n (b\<lparr>grid := (grid b)(p \<mapsto> blk)\<rparr>) (sol @ [blk]) True b2 sol2"
  shows "placed_ok (Suc n) b sol True b2 sol2"
proof -
  let ?b1 = "b\<lparr>grid := (grid b)(p \<mapsto> blk)\<rparr>"
  from ok obtain placed where
    s: "sol2 = (sol @ [blk]) @ placed" and l: "length placed = n"
    and d: "distinct (map pos placed)"
    and f: "\<forall>x \<in> set placed. grid ?b1 (pos x) = None"
    and g: "b2 = ?b1\<lparr>grid := foldl (\<lambda>g blk. g(pos blk \<mapsto> blk)) (grid ?b1) placed\<rparr>"
    and sv: "is_solved b2 = Some (Inr True)"
    by (auto simp: placed_ok_def)
  from f have np: "\<forall>x \<in> set placed. pos x \<noteq> p \<and> grid b (pos x) = None"
    by (auto split: if_splits)
  have "sol2 = sol @ (blk # placed)" using s by simp
  moreover have "length (blk # placed) = Suc n" using l by simp
  moreover have "distinct (map pos (blk # placed))" using d np pb by auto
  moreover have "\<forall>x \<in> set (blk # placed). grid b (pos x) = None" using np free pb by auto
  moreover have "b2 = b\<lparr>grid := foldl (\<lambda>g blk. g(pos blk \<mapsto> blk)) (grid b) (blk # placed)\<rparr>"
    using g pb by simp
  ultimately show ?thesis using sv unfolding placed_ok_def by (simp only: if_True) blast
qed

lemma try_place_effect:
  "try_place bp b sol i = Some (Inr (found, b', sol')) \<Longrightarrow>
     placed_ok (length bp - i) b sol found b' sol'"
  "try_positions bp ps b sol i = Some (Inr (found, b', sol')) \<Longrightarrow>
     placed_ok (length bp - i) b sol found b' sol'"
proof (induction bp b sol i and bp ps b sol i arbitrary: found b' sol' and found b' sol'
       rule: try_place_try_positions.induct)
  case (1 bp b sol i)
  show ?case
  proof (cases "length bp \<le> i")
    case True
    with 1(2) show ?thesis
      by (auto simp: placed_ok_def split: option.splits sum.splits)
  next
    case False
    with 1 show ?thesis by simp
  qed
next
  case (2 bp b sol i)
  then show ?case by (simp add: placed_ok_def)
next
  case (3 bp p rest b sol i)
  show ?case
  proof (cases "grid b p \<noteq> None")
    case True
    with 3(1)[OF True] 3(4) show ?thesis by simp
  next
    case nf: False
    then have free: "grid b p = None" by simp
    from 3(4) nf have lt: "i < length bp" by (auto split: if_splits)
    from 3(4) nf lt obtain blk where nb: "new_block (bp ! i) p = Inr blk"
      by (cases "new_block (bp ! i) p") auto
    then have pb: "pos blk = p" by (rule new_block_pos)
    let ?b1 = "b\<lparr>grid := (grid b)(p \<mapsto> blk)\<rparr>"
    have ab: "add_block b blk = Inr ?b1" using free pb by (simp add: add_block_def)
    from 3(4) nf lt nb ab obtain f2 b2 sol2 where
      rec: "try_place bp ?b1 (sol @ [blk]) (i + 1) = Some (Inr (f2, b2, sol2))"
      by (auto split: option.splits sum.splits)
    have ok2: "placed_ok (length bp - (i + 1)) ?b1 (sol @ [blk]) f2 b2 sol2"
      using 3(2)[OF nf _ nb ab rec] lt by simp
    show ?thesis
    proof (cases f2)
      case True
      with 3(4) nf lt nb ab rec have res: "found" "b' = b2" "sol' = sol2" by auto
      have "Suc (length bp - (i + 1)) = length bp - i" using lt by simp
      with placed_ok_step[OF free pb, of "length bp - (i + 1)" sol b2 sol2] ok2 True res
      show ?thesis by simp
    next
      case False
      with ok2 have b2: "b2 = ?b1" and s2: "sol2 = sol @ [blk]" by (auto simp: placed_ok_def)
      have dg: "del_grid b2 p = Inr b" using b2 undo_place[OF free, of blk] by (simp add: del_grid_def)
      have pp: "pop sol2 = Inr sol" using s2 by (simp add: pop_def)
      from 3(4) nf lt nb ab rec False dg pp
      have "try_positions bp rest b sol i = Some (Inr (found, b', sol'))" by simp
      with 3(3)[OF nf _ nb ab rec _ _ _ _ dg pp] lt False show ?thesis by simp
    qed
  qed
qed

lemma blocks_placable_none:
  "\<forall>(t, c) \<in> set avail. c = 0 \<Longrightarrow> blocks_placable_of avail = []"
  by (induction avail) (auto simp: blocks_placable_of_def)


text \<open>
  C7. The search calls \<^verbatim>\<open>add_block\<close> only after the test \<^verbatim>\<open>pos in board.grid\<close> has
  failed for the position of the block it adds, so the call never takes the branch that
  raises: no run of \<^verbatim>\<open>solver\<close> ends with the occupied-position error.
\<close>

theorem solver_never_occupied: "solver b \<noteq> Some (Inl ValueError_occupied)"
  using try_place_not_occupied(1)[of "blocks_placable_of (available_blocks b)" b "[]" 0]
  by (auto simp: solver_def Let_def split: option.splits sum.splits prod.splits)

lemma put_all_other:
  "p \<notin> pos ` set placed \<Longrightarrow> foldl (\<lambda>g blk. g(pos blk \<mapsto> blk)) g placed p = g p"
  by (induction placed arbitrary: g) auto

lemma put_all_placed:
  "distinct (map pos placed) \<Longrightarrow> blk \<in> set placed \<Longrightarrow>
     foldl (\<lambda>g blk. g(pos blk \<mapsto> blk)) g placed (pos blk) = Some blk"
proof (induction placed arbitrary: g)
  case Nil
  then show ?case by simp
next
  case (Cons a placed)
  let ?put = "\<lambda>g blk. g(pos blk \<mapsto> blk)"
  have step: "foldl ?put g (a # placed) = foldl ?put (g(pos a \<mapsto> a)) placed" by simp
  show ?case
  proof (cases "blk = a")
    case True
    from Cons.prems have "pos a \<notin> pos ` set placed" by simp
    then have "foldl ?put (g(pos a \<mapsto> a)) placed (pos a) = (g(pos a \<mapsto> a)) (pos a)"
      by (rule put_all_other)
    with True show ?thesis unfolding step by simp
  next
    case False
    with Cons.prems have "distinct (map pos placed)" "blk \<in> set placed" by simp_all
    then show ?thesis unfolding step by (rule Cons.IH)
  qed
qed

lemma solver_effect:
  assumes "solver b = Some (Inr (r, b'))"
  shows "placed_ok (length (blocks_placable_of (available_blocks b))) b [] (r \<noteq> None) b'
           (case r of None \<Rightarrow> [] | Some placed \<Rightarrow> placed)"
proof -
  let ?bp = "blocks_placable_of (available_blocks b)"
  from assms obtain found sol where
    tp: "try_place ?bp b [] 0 = Some (Inr (found, b', sol))"
    and r: "r = (if found then Some sol else None)"
    by (auto simp: solver_def Let_def split: option.splits sum.splits prod.splits)
  from try_place_effect(1)[OF tp] have ok: "placed_ok (length ?bp) b [] found b' sol" by simp
  show ?thesis
  proof (cases found)
    case True
    with r ok show ?thesis by simp
  next
    case False
    with ok have "sol = []" by (simp add: placed_ok_def)
    with False r ok show ?thesis by simp
  qed
qed

text \<open>
  C6. When \<^verbatim>\<open>solver\<close> returns \<^verbatim>\<open>None\<close> the board is what it was before the call. When
  it returns a list of placed blocks, only the grid of the board has changed: the blocks
  sit on distinct positions that were free before the call, the grid holds each returned
  block at its position and is unchanged everywhere else, there is one block for each
  entry of \<^verbatim>\<open>blocks_placable\<close>, and the board is solved.
\<close>

theorem solver_board_effect:
  "(solver b = Some (Inr (None, b')) \<longrightarrow> b' = b)
   \<and> (solver b = Some (Inr (Some placed, b')) \<longrightarrow>
        b' = b\<lparr>grid := grid b'\<rparr>
        \<and> distinct (map pos placed)
        \<and> (\<forall>blk \<in> set placed. grid b (pos blk) = None \<and> grid b' (pos blk) = Some blk)
        \<and> (\<forall>p. p \<notin> pos ` set placed \<longrightarrow> grid b' p = grid b p)
        \<and> length placed = length (blocks_placable_of (available_blocks b))
        \<and> is_solved b' = Some (Inr True))"
proof -
  have failure: "b' = b" if "solver b = Some (Inr (None, b'))"
    using solver_effect[OF that] by (simp add: placed_ok_def)
  have success: "b' = b\<lparr>grid := grid b'\<rparr>
        \<and> distinct (map pos placed)
        \<and> (\<forall>blk \<in> set placed. grid b (pos blk) = None \<and> grid b' (pos blk) = Some blk)
        \<and> (\<forall>p. p \<notin> pos ` set placed \<longrightarrow> grid b' p = grid b p)
        \<and> length placed = length (blocks_placable_of (available_blocks b))
        \<and> is_solved b' = Some (Inr True)"
    if "solver b = Some (Inr (Some placed, b'))"
  proof -
    from solver_effect[OF that] have
      d: "distinct (map pos placed)"
      and f: "\<forall>blk \<in> set placed. grid b (pos blk) = None"
      and g: "b' = b\<lparr>grid := foldl (\<lambda>g blk. g(pos blk \<mapsto> blk)) (grid b) placed\<rparr>"
      and l: "length placed = length (blocks_placable_of (available_blocks b))"
      and s: "is_solved b' = Some (Inr True)"
      by (auto simp: placed_ok_def)
    from g have gg: "grid b' = foldl (\<lambda>g blk. g(pos blk \<mapsto> blk)) (grid b) placed" by simp
    have 1: "b' = b\<lparr>grid := grid b'\<rparr>" using g by simp
    have 2: "\<forall>blk \<in> set placed. grid b' (pos blk) = Some blk"
      unfolding gg using put_all_placed[OF d] by blast
    have 3: "\<forall>p. p \<notin> pos ` set placed \<longrightarrow> grid b' p = grid b p"
      unfolding gg using put_all_other by blast
    from 1 2 3 d f l s show ?thesis by blast
  qed
  from failure success show ?thesis by blast
qed

theorem solver_board_effect_witness:
  "solver ex_unsolvable = Some (Inr (None, ex_unsolvable))
   \<and> (\<exists>b'. solver ex_puzzle = Some (Inr (Some [Block ReflectBlock (Point 4 4) False], b'))
          \<and> grid ex_puzzle (Point 4 4) = None
          \<and> grid b' (Point 4 4) = Some (Block ReflectBlock (Point 4 4) False)
          \<and> grid b' (Point 2 2) = grid ex_puzzle (Point 2 2)
          \<and> is_solved b' = Some (Inr True))"
proof -
  let ?blk = "Block ReflectBlock (Point 4 4) False"
  have "map_option (map_sum id fst) (solver ex_unsolvable) = Some (Inr None)" by code_simp
  then obtain b1 where s1: "solver ex_unsolvable = Some (Inr (None, b1))"
    by (cases "solver ex_unsolvable") (auto simp: map_sum_def split: sum.splits)
  with solver_board_effect[of ex_unsolvable b1] have "b1 = ex_unsolvable" by blast
  with s1 have u: "solver ex_unsolvable = Some (Inr (None, ex_unsolvable))" by simp
  have "map_option (map_sum id fst) (solver ex_puzzle) = Some (Inr (Some [?blk]))" by code_simp
  then obtain b2 where s2: "solver ex_puzzle = Some (Inr (Some [?blk], b2))"
    by (cases "solver ex_puzzle") (auto simp: map_sum_def split: sum.splits)
  from solver_board_effect[of ex_puzzle b2 "[?blk]"] s2
  have "grid ex_puzzle (Point 4 4) = None \<and> grid b2 (Point 4 4) = Some ?blk
        \<and> grid b2 (Point 2 2) = grid ex_puzzle (Point 2 2) \<and> is_solved b2 = Some (Inr True)"
    by simp
  with u s2 show ?thesis by blast
qed

text \<open>
  C10. With every count zero, \<^verbatim>\<open>solver\<close> is claimed to return the empty list or
  \<^verbatim>\<open>None\<close>. On \<open>ex_diagonal\<close>, where every count is zero and there is no target, the
  simulation run by \<^verbatim>\<open>is_solved\<close> raises the entry error of \<^verbatim>\<open>interact\<close>, and
  \<^verbatim>\<open>solver\<close> raises it too: it returns neither.
\<close>

theorem solver_raises_on_zero_counts:
  "available_blocks ex_diagonal = [(''A'', 0), (''B'', 0), (''C'', 0)]
   \<and> targets ex_diagonal = {}
   \<and> solver ex_diagonal = Some (Inl ValueError_entry)"
proof -
  have "map_option (map_sum id fst) (solver ex_diagonal) = Some (Inl ValueError_entry)"
    by code_simp
  then have "solver ex_diagonal = Some (Inl ValueError_entry)"
    by (cases "solver ex_diagonal") (auto simp: map_sum_def split: sum.splits)
  then show ?thesis by (simp add: ex_diagonal_def add_laser_def Board_init_def)
qed

text \<open>
  C10, as the code has it. When every count in \<^verbatim>\<open>available_blocks\<close> is zero,
  \<^verbatim>\<open>solver\<close> simulates the board once and places nothing. If the simulation returns the
  set \<open>lit\<close>, \<^verbatim>\<open>solver\<close> leaves the board alone and returns the empty list when the
  targets are a subset of \<open>lit\<close>, and \<^verbatim>\<open>None\<close> otherwise; if the simulation raises,
  \<^verbatim>\<open>solver\<close> raises the same exception. The empty list is not \<^verbatim>\<open>None\<close>, but it is
  false under a truth test just as \<^verbatim>\<open>None\<close> is, so the main program, which tests
  \<^verbatim>\<open>if solution:\<close>, reports the board that is solved already as \<^verbatim>\<open>No solution.\<close>
\<close>

theorem solver_nothing_to_place:
  assumes "\<forall>(block_type, count) \<in> set (available_blocks b). count = 0"
  shows "(\<forall>lit. simulate_lasers b = Some (Inr lit) \<longrightarrow>
            solver b = Some (Inr (if targets b \<subseteq> lit then Some [] else None, b)))
         \<and> (\<forall>e. simulate_lasers b = Some (Inl e) \<longrightarrow> solver b = Some (Inl e))
         \<and> Some ([] :: Block list) \<noteq> None
         \<and> \<not> truthy (Some ([] :: Block list))
         \<and> \<not> truthy (None :: Block list option)
         \<and> main_report (Some []) = No_solution
         \<and> main_report None = No_solution"
proof -
  from assms have "blocks_placable_of (available_blocks b) = []"
    by (rule blocks_placable_none)
  then show ?thesis
    by (simp add: solver_def is_solved_def truthy_def main_report_def)
qed

theorem solver_nothing_to_place_witness:
  "simulate_lasers ex_line = Some (Inr {Point 1 0, Point 2 0, Point 3 0})
   \<and> solver ex_line = Some (Inr (Some [], ex_line))
   \<and> main_report (Some []) = No_solution
   \<and> simulate_lasers ex_dark = Some (Inr {Point 1 0, Point 2 0, Point 3 0})
   \<and> solver ex_dark = Some (Inr (None, ex_dark))
   \<and> simulate_lasers ex_diagonal = Some (Inl ValueError_entry)
   \<and> solver ex_diagonal = Some (Inl ValueError_entry)"
proof -
  let ?lit = "{Point 1 0, Point 2 0, Point 3 0}"
  note ev = ex_line_def ex_dark_def ex_diagonal_def add_target_def add_laser_def Board_init_def
  have z1: "\<forall>(block_type, count) \<in> set (available_blocks ex_line). count = 0" by (simp add: ev)
  have z2: "\<forall>(block_type, count) \<in> set (available_blocks ex_dark). count = 0" by (simp add: ev)
  have z3: "\<forall>(block_type, count) \<in> set (available_blocks ex_diagonal). count = 0"
    by (simp add: ev)
  have l1: "simulate_lasers ex_line = Some (Inr ?lit)" by code_simp
  have l2: "simulate_lasers ex_dark = Some (Inr ?lit)" by code_simp
  have l3: "simulate_lasers ex_diagonal = Some (Inl ValueError_entry)" by code_simp
  have t1: "targets ex_line \<subseteq> ?lit" by (simp add: ev)
  have t2: "\<not> targets ex_dark \<subseteq> ?lit" by (simp add: ev)
  from solver_nothing_to_place[OF z1] l1 t1
  have r1: "solver ex_line = Some (Inr (Some [], ex_line))" by simp
  from solver_nothing_to_place[OF z1]
  have m: "main_report (Some []) = No_solution" by blast
  from solver_nothing_to_place[OF z2] l2 t2
  have r2: "solver ex_dark = Some (Inr (None, ex_dark))" by simp
  from solver_nothing_to_place[OF z3] l3
  have r3: "solver ex_diagonal = Some (Inl ValueError_entry)" by blast
  from l1 r1 m l2 r2 l3 r3 show ?thesis by simp
qed

section \<open>Failure of the search\<close>

inductive_cases placement_NilE: "placement [] b b'"
inductive_cases placement_ConsE: "placement (t # ts) b b'"

lemma placement_Nil: "placement [] b b' \<Longrightarrow> b' = b"
  by (erule placement_NilE) simp

lemma placement_Cons:
  "placement (t # ts) b b' \<Longrightarrow>
     \<exists>p blk. p \<in> set (empty_positions b) \<and> grid b p = None \<and> new_block t p = Inr blk
        \<and> placement ts (b\<lparr>grid := (grid b)(p \<mapsto> blk)\<rparr>) b'"
  by (erule placement_ConsE) blast

lemma try_place_exhaustive:
  "try_place bp b sol i = Some (Inr (False, b', sol')) \<Longrightarrow>
     placement (drop i bp) b b'' \<Longrightarrow> is_solved b'' = Some (Inr False)"
  "try_positions bp ps b sol i = Some (Inr (False, b', sol')) \<Longrightarrow>
     p \<in> set ps \<Longrightarrow> grid b p = None \<Longrightarrow> i < length bp \<Longrightarrow> new_block (bp ! i) p = Inr blk \<Longrightarrow>
     placement (drop (Suc i) bp) (b\<lparr>grid := (grid b)(p \<mapsto> blk)\<rparr>) b'' \<Longrightarrow>
     is_solved b'' = Some (Inr False)"
proof (induction bp b sol i and bp ps b sol i arbitrary: b' sol' b'' and b' sol' b'' p blk
       rule: try_place_try_positions.induct)
  case (1 bp b sol i)
  show ?case
  proof (cases "length bp \<le> i")
    case True
    with 1(3) have "b'' = b" by (simp add: placement_Nil)
    with 1(2) True show ?thesis by (auto split: option.splits sum.splits)
  next
    case False
    then have lt: "i < length bp" by simp
    then have "drop i bp = bp ! i # drop (Suc i) bp" by (simp add: Cons_nth_drop_Suc)
    with 1(3) obtain p blk where
      "p \<in> set (empty_positions b)" "grid b p = None" "new_block (bp ! i) p = Inr blk"
      "placement (drop (Suc i) bp) (b\<lparr>grid := (grid b)(p \<mapsto> blk)\<rparr>) b''"
      using placement_Cons by metis
    moreover from 1(2) False
    have "try_positions bp (empty_positions b) b sol i = Some (Inr (False, b', sol'))" by simp
    ultimately show ?thesis using 1(1)[OF False] lt by blast
  qed
next
  case (2 bp b sol i)
  then show ?case by simp
next
  case (3 bp p0 rest b sol i)
  note res = 3(4) and pin = 3(5) and pfree = 3(6) and lt = 3(7) and nb = 3(8) and pl = 3(9)
  show ?case
  proof (cases "grid b p0 \<noteq> None")
    case True
    with res have r: "try_positions bp rest b sol i = Some (Inr (False, b', sol'))" by simp
    from True pin pfree have "p \<in> set rest" by auto
    from 3(1)[OF True r this pfree lt nb pl] show ?thesis .
  next
    case nf: False
    then have free: "grid b p0 = None" by simp
    from res nf lt obtain blk0 where nb0: "new_block (bp ! i) p0 = Inr blk0"
      by (cases "new_block (bp ! i) p0") auto
    then have pb: "pos blk0 = p0" by (rule new_block_pos)
    let ?b1 = "b\<lparr>grid := (grid b)(p0 \<mapsto> blk0)\<rparr>"
    have ab: "add_block b blk0 = Inr ?b1" using free pb by (simp add: add_block_def)
    from res nf lt nb0 ab obtain f2 b2 sol2 where
      rec: "try_place bp ?b1 (sol @ [blk0]) (i + 1) = Some (Inr (f2, b2, sol2))"
      by (auto split: option.splits sum.splits)
    from res nf lt nb0 ab rec have nfound: "\<not> f2" by (auto split: if_splits)
    from try_place_effect(1)[OF rec] nfound
    have b2: "b2 = ?b1" and s2: "sol2 = sol @ [blk0]" by (auto simp: placed_ok_def)
    have dg: "del_grid b2 p0 = Inr b" using b2 undo_place[OF free, of blk0] by (simp add: del_grid_def)
    have pp: "pop sol2 = Inr sol" using s2 by (simp add: pop_def)
    from res nf lt nb0 ab rec nfound dg pp
    have r: "try_positions bp rest b sol i = Some (Inr (False, b', sol'))" by simp
    show ?thesis
    proof (cases "p = p0")
      case True
      with nb nb0 have blk: "blk = blk0" by simp
      have "placement (drop (i + 1) bp) ?b1 b''"
        using pl unfolding True blk by (simp only: Suc_eq_plus1)
      from 3(2)[OF nf _ nb0 ab _ this] lt rec nfound show ?thesis by simp
    next
      case False
      with pin have "p \<in> set rest" by simp
      from 3(3)[OF nf _ nb0 ab rec _ _ _ _ dg pp r this pfree lt nb pl] lt nfound
      show ?thesis by simp
    qed
  qed
qed


text \<open>
  C4. The claim gives the search a wall-clock deadline, checked at the top of each
  recursive call, and a Timeout outcome kept apart from Unsolvable. \<^verbatim>\<open>solver\<close> takes the
  board only and \<^verbatim>\<open>try_place\<close> reads no clock, so the model has no time input, and a
  call that finds no solution has one result, \<^verbatim>\<open>None\<close>: the search that tries both cells
  of \<open>ex_unsolvable\<close> and the search that has nothing to place on \<open>ex_dark\<close> return
  the same value, and no result of \<^verbatim>\<open>solver\<close> is anything but \<^verbatim>\<open>None\<close> or a list of
  placed blocks. Two kinds of failure cannot be told apart.
\<close>

theorem solver_failure_not_distinguished:
  "solver ex_unsolvable = Some (Inr (None, ex_unsolvable))
   \<and> solver ex_dark = Some (Inr (None, ex_dark))
   \<and> \<not> (\<exists>b r b'. solver b = Some (Inr (r, b')) \<and> r \<noteq> None \<and> (\<forall>placed. r \<noteq> Some placed))"
proof -
  have "map_option (map_sum id fst) (solver ex_unsolvable) = Some (Inr None)" by code_simp
  then obtain b1 where s1: "solver ex_unsolvable = Some (Inr (None, b1))"
    by (cases "solver ex_unsolvable") (auto simp: map_sum_def split: sum.splits)
  from solver_effect[OF s1] have "b1 = ex_unsolvable" by (simp add: placed_ok_def)
  with s1 have u: "solver ex_unsolvable = Some (Inr (None, ex_unsolvable))" by simp
  have "map_option (map_sum id fst) (solver ex_dark) = Some (Inr None)" by code_simp
  then obtain b2 where s2: "solver ex_dark = Some (Inr (None, b2))"
    by (cases "solver ex_dark") (auto simp: map_sum_def split: sum.splits)
  from solver_effect[OF s2] have "b2 = ex_dark" by (simp add: placed_ok_def)
  with s2 have d: "solver ex_dark = Some (Inr (None, ex_dark))" by simp
  from u d show ?thesis by auto
qed

text \<open>
  C4, as the code has it. \<^verbatim>\<open>solver\<close> makes no deadline check and has no Timeout outcome.
  Its only failure result is \<^verbatim>\<open>None\<close>, and it stands for exhaustion: when \<^verbatim>\<open>solver\<close>
  returns \<^verbatim>\<open>None\<close>, every complete placement of the placable blocks, in their order, on
  free cells of \<^verbatim>\<open>empty_positions\<close> has been simulated and is not solved.
\<close>

theorem solver_failure_is_exhaustion:
  assumes "solver b = Some (Inr (None, b'))"
    and "placement (blocks_placable_of (available_blocks b)) b b''"
  shows "is_solved b'' = Some (Inr False)"
proof -
  let ?bp = "blocks_placable_of (available_blocks b)"
  from assms(1) obtain sol where "try_place ?bp b [] 0 = Some (Inr (False, b', sol))"
    by (auto simp: solver_def Let_def split: option.splits sum.splits prod.splits if_splits)
  from try_place_exhaustive(1)[OF this] assms(2) show ?thesis by simp
qed

theorem solver_failure_is_exhaustion_witness:
  "solver ex_unsolvable = Some (Inr (None, ex_unsolvable))
   \<and> placement (blocks_placable_of (available_blocks ex_unsolvable)) ex_unsolvable
       (ex_unsolvable\<lparr>grid := (grid ex_unsolvable)
          (Point 4 4 \<mapsto> Block ReflectBlock (Point 4 4) False)\<rparr>)
   \<and> is_solved (ex_unsolvable\<lparr>grid := (grid ex_unsolvable)
          (Point 4 4 \<mapsto> Block ReflectBlock (Point 4 4) False)\<rparr>) = Some (Inr False)"
proof -
  note ev = ex_unsolvable_def add_target_def add_laser_def Board_init_def
  let ?blk = "Block ReflectBlock (Point 4 4) False"
  let ?b = "ex_unsolvable\<lparr>grid := (grid ex_unsolvable)(Point 4 4 \<mapsto> ?blk)\<rparr>"
  have "map_option (map_sum id fst) (solver ex_unsolvable) = Some (Inr None)" by code_simp
  then obtain b1 where s1: "solver ex_unsolvable = Some (Inr (None, b1))"
    by (cases "solver ex_unsolvable") (auto simp: map_sum_def split: sum.splits)
  from solver_effect[OF s1] have "b1 = ex_unsolvable" by (simp add: placed_ok_def)
  with s1 have u: "solver ex_unsolvable = Some (Inr (None, ex_unsolvable))" by simp
  have bp: "blocks_placable_of (available_blocks ex_unsolvable) = [''A'']"
    by (simp add: ev blocks_placable_of_def)
  have m: "Point 4 4 \<in> set (empty_positions ex_unsolvable)" by (simp add: ev)
  have f: "grid ex_unsolvable (Point 4 4) = None" by (simp add: ev)
  have n: "new_block ''A'' (Point 4 4) = Inr ?blk" by (simp add: new_block_def)
  have pl: "placement (blocks_placable_of (available_blocks ex_unsolvable)) ex_unsolvable ?b"
    unfolding bp by (rule placement_step[OF m f n placement_done])
  from solver_failure_is_exhaustion[OF u pl] u pl show ?thesis by blast
qed

end
